theory Spec2Isabelle
  imports Complex_Main
begin

section \<open>JavaScript strings\<close>

text \<open>
  A JavaScript string is a sequence of UTF-16 code units.  A code unit is modelled by its
  number, so that every character \<open>String.prototype.trim\<close> removes (several of them lie
  outside Latin-1) is a value of the model.  \<open>js\<close> writes an ASCII literal.
\<close>

type_synonym jsstring = "nat list"

definition js :: "string \<Rightarrow> jsstring" where
  "js s = map of_char s"

definition LF :: nat where
  "LF = 10"

definition COMMA :: nat where
  "COMMA = 44"

text \<open>
  The code units \<open>trim\<close> strips: ECMAScript's WhiteSpace (TAB, VT, FF, SP, NBSP, ZWNBSP
  and the Unicode category Zs) and LineTerminator (LF, CR, LS, PS).
\<close>

definition isWhiteSpace :: "nat \<Rightarrow> bool" where
  "isWhiteSpace c \<longleftrightarrow>
     c \<in> set [9, 10, 11, 12, 13, 32, 160, 5760, 8232, 8233, 8239, 8287, 12288, 65279]
     \<or> (8192 \<le> c \<and> c \<le> 8202)"

definition trim :: "jsstring \<Rightarrow> jsstring" where
  "trim s = rev (dropWhile isWhiteSpace (rev (dropWhile isWhiteSpace s)))"

text \<open>
  \<open>s.split(sep)\<close> for a separator of one code unit (\<open>/\n/\<close> and \<open>','\<close> in the source):
  the pieces between the separators, in order; the empty string gives one empty piece.
  The last case of the inner \<open>case\<close> is never taken (\<open>split_str\<close> returns no empty list).
\<close>

fun split_str :: "nat \<Rightarrow> jsstring \<Rightarrow> jsstring list" where
  "split_str sep [] = [[]]"
| "split_str sep (c # cs) =
     (if c = sep then [] # split_str sep cs
      else (case split_str sep cs of
              l # ls \<Rightarrow> (c # l) # ls
            | [] \<Rightarrow> [[c]]))"

text \<open>\<open>lines.join(sep)\<close>, the text a list of lines is read from.\<close>

fun join_str :: "nat \<Rightarrow> jsstring list \<Rightarrow> jsstring" where
  "join_str sep [] = []"
| "join_str sep [l] = l"
| "join_str sep (l # l' # ls) = l @ sep # join_str sep (l' # ls)"

text \<open>
  \<open>text.split(/\n/).map(c => c.trim()).filter(c => c)\<close>, the expression both
  \<open>handleFileUpload\<close> and \<open>addCards\<close> build their \<open>cardList\<close> with.  A string is truthy
  when it is not empty.
\<close>

definition truthy :: "jsstring \<Rightarrow> bool" where
  "truthy s \<longleftrightarrow> s \<noteq> []"

definition cardList_of :: "jsstring \<Rightarrow> jsstring list" where
  "cardList_of text = filter truthy (map trim (split_str LF text))"

section \<open>Errors, numbers, callers and the environment\<close>

text \<open>
  The actions throw \<open>new Error(message)\<close>, an object with no \<open>code\<close> that
  \<open>JSON.stringify\<close> prints as \<open>{}\<close>.  The storage driver throws errors of its own, with a
  message, possibly a code, and a JSON text; the source looks into all three.
\<close>

datatype error = Error string | DbError string "string option" string

fun message :: "error \<Rightarrow> string" where
  "message (Error m) = m"
| "message (DbError m c j) = m"

fun code :: "error \<Rightarrow> string option" where
  "code (Error m) = None"
| "code (DbError m c j) = c"

fun JSON_stringify :: "error \<Rightarrow> string" where
  "JSON_stringify (Error m) = ''{}''"
| "JSON_stringify (DbError m c j) = j"

fun starts_with :: "string \<Rightarrow> string \<Rightarrow> bool" where
  "starts_with s [] = True"
| "starts_with [] (p # ps) = False"
| "starts_with (x # xs) (p # ps) = (x = p \<and> starts_with xs ps)"

text \<open>\<open>s.includes(p)\<close>\<close>

fun includes_str :: "string \<Rightarrow> string \<Rightarrow> bool" where
  "includes_str [] p = starts_with [] p"
| "includes_str (x # xs) p = (starts_with (x # xs) p \<or> includes_str xs p)"

text \<open>
  A JavaScript number: a double is a rational number, or one of the three others.
\<close>

datatype number = NaN | Infinity | NegInfinity | Num rat

fun isFinite :: "number \<Rightarrow> bool" where
  "isFinite (Num q) = True"
| "isFinite n = False"

fun positive :: "number \<Rightarrow> bool" where
  "positive (Num q) = (q > 0)"
| "positive Infinity = True"
| "positive n = False"

text \<open>\<open>n || 0\<close>: \<open>NaN\<close> and zero are falsy.\<close>

fun or_zero :: "number \<Rightarrow> number" where
  "or_zero NaN = Num 0"
| "or_zero n = n"

record user =
  username :: "jsstring option"

record session =
  user :: "user option"

text \<open>The statements an action sends to the database, as the trace of a run lists them.\<close>

record product_values =
  pv_id :: jsstring
  pv_name :: "jsstring option"
  pv_description :: "jsstring option"
  pv_price :: "jsstring option"
  pv_compareAtPrice :: "jsstring option"
  pv_category :: "jsstring option"
  pv_image :: "jsstring option"
  pv_purchaseLimit :: "number option"
  pv_isHot :: bool

record category_values =
  cv_name :: jsstring
  cv_icon :: "jsstring option"
  cv_sortOrder :: number
  cv_updatedAt :: int

datatype stmt =
    DROP_INDEX
  | INSERT_cards "jsstring option" "jsstring list"
  | SELECT_card nat
  | DELETE_card nat
  | DELETE_cards_where jsstring int
  | CREATE_categories
  | INSERT_category_name jsstring
  | UPSERT_product product_values
  | ALTER_products_add_columns
  | ALTER_products_add_compare_at_price
  | ALTER_products_add_is_hot
  | DELETE_product jsstring
  | UPDATE_product_isActive jsstring bool
  | UPDATE_product_sortOrder jsstring number
  | SET_setting string jsstring
  | CREATE_settings
  | DELETE_review nat
  | UPDATE_category number category_values
  | INSERT_category category_values
  | DELETE_category nat

text \<open>
  What an action reads from outside the database.  Of the runtime: \<open>toLowerCase\<close> (the
  Unicode case mapping), \<open>parseInt(s)\<close>, \<open>Number.parseInt(s, 10)\<close> and \<open>String(n)\<close>, taken as
  they are.  Of the process: the environment variable \<open>ADMIN_USERS\<close> (\<open>None\<close> when
  unset), what \<open>auth()\<close> returns (\<open>None\<close> for no session), \<open>Date.now()\<close> in milliseconds
  and the database clock \<open>unixepoch()\<close> in seconds.  Of the storage backend: what a
  statement on the products, categories, reviews and settings tables does to them
  (\<open>'o\<close> is their content) and whether it fails; the schema and the backend are not among
  the sources, so every backend is allowed.
\<close>

record 'o ctx =
  toLowerCase :: "jsstring \<Rightarrow> jsstring"
  parseInt :: "jsstring \<Rightarrow> number"
  parseInt10 :: "jsstring \<Rightarrow> number"
  String_of :: "number \<Rightarrow> jsstring"
  ADMIN_USERS :: "jsstring option"
  auth :: "session option"
  Date_now :: int
  unixepoch :: int
  backend :: "stmt \<Rightarrow> 'o \<Rightarrow> (error + unit) \<times> 'o"

section \<open>The server: the cards table, the other tables, the cache\<close>

text \<open>
  Modelled from the spec: the schema of the cards table (\<open>@/lib/db/schema\<close>) is not among
  the sources.  A card key has an identifier, its product, the key string, a used flag
  that may be absent and an optional reservation time in milliseconds; a new row is
  unused and not reserved, and its product is required.  The legacy unique index on
  (product, key), while it exists, makes an insert of a repeated key fail as a whole.
\<close>

record card =
  card_id :: nat
  productId :: jsstring
  cardKey :: jsstring
  isUsed :: "bool option"
  reservedAt :: "int option"

record 'o server =
  cards :: "card list"
  cards_seq :: nat
  cards_uq :: bool
  other :: 'o
  trace :: "stmt list"
  revalidated :: "jsstring list"

type_synonym ('o, 'a) action = "'o server \<Rightarrow> (error + 'a) \<times> 'o server"

definition return_a :: "'a \<Rightarrow> ('o, 'a) action" where
  "return_a x s = (Inr x, s)"

definition throw :: "error \<Rightarrow> ('o, 'a) action" where
  "throw e s = (Inl e, s)"

text \<open>\<open>await m; f\<close>: an error of \<open>m\<close> ends the run, with the server as \<open>m\<close> left it.\<close>

definition then_do :: "('o, 'a) action \<Rightarrow> ('a \<Rightarrow> ('o, 'b) action) \<Rightarrow> ('o, 'b) action" where
  "then_do m f s = (case m s of (Inl e, s') \<Rightarrow> (Inl e, s') | (Inr x, s') \<Rightarrow> f x s')"

text \<open>\<open>try { m } catch (e) { h e }\<close>\<close>

definition try_catch :: "('o, 'a) action \<Rightarrow> (error \<Rightarrow> ('o, 'a) action) \<Rightarrow> ('o, 'a) action" where
  "try_catch m h s = (case m s of (Inl e, s') \<Rightarrow> h e s' | (Inr x, s') \<Rightarrow> (Inr x, s'))"

definition logged :: "stmt \<Rightarrow> 'o server \<Rightarrow> 'o server" where
  "logged st s = s\<lparr>trace := trace s @ [st]\<rparr>"

definition revalidatePath :: "jsstring \<Rightarrow> ('o, unit) action" where
  "revalidatePath path s = (Inr (), s\<lparr>revalidated := revalidated s @ [path]\<rparr>)"

text \<open>A statement on the other tables: the backend runs it.\<close>

definition db_run :: "'o ctx \<Rightarrow> stmt \<Rightarrow> ('o, unit) action" where
  "db_run c st s =
     (case backend c st (other s) of (r, o') \<Rightarrow> (r, (logged st s)\<lparr>other := o'\<rparr>))"

definition new_rows :: "jsstring \<Rightarrow> jsstring list \<Rightarrow> nat \<Rightarrow> card list" where
  "new_rows pid keys n =
     map (\<lambda>(k, i). \<lparr>card_id = i, productId = pid, cardKey = k,
                     isUsed = Some False, reservedAt = None\<rparr>)
       (zip keys [n ..< n + length keys])"

definition uq_violation :: "jsstring \<Rightarrow> jsstring list \<Rightarrow> 'o server \<Rightarrow> bool" where
  "uq_violation pid keys s \<longleftrightarrow>
     cards_uq s \<and>
     (\<not> distinct keys \<or> list_ex (\<lambda>c. productId c = pid \<and> cardKey c \<in> set keys) (cards s))"

definition unique_violation :: error where
  "unique_violation = DbError ''unique constraint'' (Some ''23505'') ''{\"code\":\"23505\"}''"

definition not_null_violation :: error where
  "not_null_violation = DbError ''not-null constraint'' (Some ''23502'') ''{\"code\":\"23502\"}''"

text \<open>\<open>DROP INDEX IF EXISTS cards_product_id_card_key_uq\<close>\<close>

definition db_drop_index :: "('o, unit) action" where
  "db_drop_index s = (Inr (), (logged DROP_INDEX s)\<lparr>cards_uq := False\<rparr>)"

text \<open>\<open>db.insert(cards).values(keys.map(key => ({ productId, cardKey: key })))\<close>\<close>

definition db_insert_cards :: "jsstring option \<Rightarrow> jsstring list \<Rightarrow> ('o, unit) action" where
  "db_insert_cards productId' keys s =
     (case productId' of
        None \<Rightarrow> (Inl not_null_violation, logged (INSERT_cards None keys) s)
      | Some pid \<Rightarrow>
          if uq_violation pid keys s
          then (Inl unique_violation, logged (INSERT_cards (Some pid) keys) s)
          else (Inr (), (logged (INSERT_cards (Some pid) keys) s)
                          \<lparr>cards := cards s @ new_rows pid keys (cards_seq s),
                           cards_seq := cards_seq s + length keys\<rparr>))"

text \<open>\<open>db.query.cards.findFirst({ where: eq(cards.id, cardId) })\<close>\<close>

definition db_find_card :: "nat \<Rightarrow> ('o, card option) action" where
  "db_find_card cid s = (Inr (find (\<lambda>c. card_id c = cid) (cards s)), logged (SELECT_card cid) s)"

text \<open>\<open>db.delete(cards).where(eq(cards.id, cardId))\<close>\<close>

definition db_delete_card :: "nat \<Rightarrow> ('o, unit) action" where
  "db_delete_card cid s =
     (Inr (), (logged (DELETE_card cid) s)\<lparr>cards := filter (\<lambda>c. card_id c \<noteq> cid) (cards s)\<rparr>)"

text \<open>
  The condition of the filtered delete of \<open>deleteAllCards\<close>, for the bound \<open>t\<close> its SQL
  computes:
  \<open>product_id = pid AND COALESCE(is_used, 0) = 0 AND (reserved_at IS NULL OR reserved_at < t)\<close>
\<close>

definition delete_where :: "jsstring \<Rightarrow> int \<Rightarrow> card \<Rightarrow> bool" where
  "delete_where pid t c \<longleftrightarrow>
     productId c = pid
     \<and> (case isUsed c of None \<Rightarrow> False | Some u \<Rightarrow> u) = False
     \<and> (case reservedAt c of None \<Rightarrow> True | Some r \<Rightarrow> r < t)"

text \<open>\<open>db.delete(cards).where(...).returning({ id: cards.id })\<close>: one statement.\<close>

definition db_delete_cards_where :: "jsstring \<Rightarrow> int \<Rightarrow> ('o, nat list) action" where
  "db_delete_cards_where pid t s =
     (Inr (map card_id (filter (delete_where pid t) (cards s))),
      (logged (DELETE_cards_where pid t) s)
        \<lparr>cards := filter (\<lambda>c. \<not> delete_where pid t c) (cards s)\<rparr>)"

section \<open>The admin actions on card keys\<close>

text \<open>\<open>process.env.ADMIN_USERS?.toLowerCase().split(',') || []\<close>\<close>

definition adminUsers :: "'o ctx \<Rightarrow> jsstring list" where
  "adminUsers c =
     (case ADMIN_USERS c of
        None \<Rightarrow> []
      | Some v \<Rightarrow> split_str COMMA (toLowerCase c v))"

definition Unauthorized :: error where
  "Unauthorized = Error ''Unauthorized''"

text \<open>\<open>checkAdmin\<close> reads the session and the environment, never the database.\<close>

definition checkAdmin :: "'o ctx \<Rightarrow> ('o, unit) action" where
  "checkAdmin c =
     (case auth c of
        None \<Rightarrow> throw Unauthorized
      | Some sess \<Rightarrow>
          (case user sess of
             None \<Rightarrow> throw Unauthorized
           | Some u \<Rightarrow>
               (case username u of
                  None \<Rightarrow> throw Unauthorized
                | Some n \<Rightarrow>
                    if \<not> truthy n \<or> toLowerCase c n \<notin> set (adminUsers c)
                    then throw Unauthorized
                    else return_a ())))"

text \<open>\<open>xs.slice(a, b)\<close> for indices that are not negative.\<close>

definition slice :: "nat \<Rightarrow> nat \<Rightarrow> 'a list \<Rightarrow> 'a list" where
  "slice a b xs = take (b - a) (drop a xs)"

record batch_result =
  success :: nat

definition validKeys :: "jsstring list \<Rightarrow> jsstring list" where
  "validKeys cardKeys = filter truthy (map trim cardKeys)"

text \<open>The three paths the card actions refresh; the second is a template literal.\<close>

definition revalidate_cards :: "jsstring \<Rightarrow> ('o, unit) action" where
  "revalidate_cards tail =
     then_do (revalidatePath (js ''/admin'')) (\<lambda>_.
     then_do (revalidatePath (js ''/admin/cards'' @ tail)) (\<lambda>_.
     revalidatePath (js ''/'')))"

text \<open>
  \<open>addCardsBatch\<close> of \<open>src/actions/admin.ts\<close> (the PostgreSQL build): one insert statement
  takes all the keys.  The outcome of the \<open>DROP INDEX\<close> is ignored (\<open>catch { }\<close>).
\<close>

definition addCardsBatch_pg :: "'o ctx \<Rightarrow> jsstring \<Rightarrow> jsstring list \<Rightarrow> ('o, batch_result) action" where
  "addCardsBatch_pg c pid cardKeys =
     then_do (checkAdmin c) (\<lambda>_.
       if length (validKeys cardKeys) = 0 then return_a \<lparr>success = 0\<rparr>
       else
         then_do (try_catch db_drop_index (\<lambda>_. return_a ())) (\<lambda>_.
         then_do (db_insert_cards (Some pid) (validKeys cardKeys)) (\<lambda>_.
         then_do (revalidate_cards (js ''/'' @ pid)) (\<lambda>_.
         return_a \<lparr>success = length (validKeys cardKeys)\<rparr>))))"

text \<open>
  \<open>addCardsBatch\<close> of the D1 build (the second \<open>admin.ts\<close>) inserts in a loop,
  \<open>BATCH_SIZE = 10\<close> keys for each statement:
  \<open>for (let i = 0; i < validKeys.length; i += BATCH_SIZE)\<close>
\<close>

definition BATCH_SIZE_admin :: nat where
  "BATCH_SIZE_admin = 10"

function insertBatches :: "jsstring option \<Rightarrow> jsstring list \<Rightarrow> nat \<Rightarrow> ('o, unit) action" where
  "insertBatches pid keys i s =
     (if i < length keys then
        (case db_insert_cards pid (slice i (i + BATCH_SIZE_admin) keys) s of
           (Inl e, s') \<Rightarrow> (Inl e, s')
         | (Inr _, s') \<Rightarrow> insertBatches pid keys (i + BATCH_SIZE_admin) s')
      else (Inr (), s))"
  by pat_completeness auto
termination
  by (relation "measure (\<lambda>(pid, keys, i, s). length keys - i)")
     (auto simp: BATCH_SIZE_admin_def)

definition addCardsBatch :: "'o ctx \<Rightarrow> jsstring \<Rightarrow> jsstring list \<Rightarrow> ('o, batch_result) action" where
  "addCardsBatch c pid cardKeys =
     then_do (checkAdmin c) (\<lambda>_.
       if length (validKeys cardKeys) = 0 then return_a \<lparr>success = 0\<rparr>
       else
         then_do (try_catch db_drop_index (\<lambda>_. return_a ())) (\<lambda>_.
         then_do (insertBatches (Some pid) (validKeys cardKeys) 0) (\<lambda>_.
         then_do (revalidate_cards (js ''/'' @ pid)) (\<lambda>_.
         return_a \<lparr>success = length (validKeys cardKeys)\<rparr>))))"

text \<open>
  \<open>addCards\<close>, the form action.  A form without the field \<open>cards\<close> makes
  \<open>rawCards.split\<close> a TypeError; without \<open>product_id\<close> the template prints \<open>null\<close>.
\<close>

definition template_null :: "jsstring option \<Rightarrow> jsstring" where
  "template_null v = (case v of None \<Rightarrow> js ''null'' | Some x \<Rightarrow> x)"

definition addCards_pg :: "'o ctx \<Rightarrow> (jsstring \<Rightarrow> jsstring option) \<Rightarrow> ('o, unit) action" where
  "addCards_pg c formData =
     then_do (checkAdmin c) (\<lambda>_.
       case formData (js ''cards'') of
         None \<Rightarrow> throw (Error ''TypeError'')
       | Some rawCards \<Rightarrow>
           if length (cardList_of rawCards) = 0 then return_a ()
           else
             then_do (try_catch db_drop_index (\<lambda>_. return_a ())) (\<lambda>_.
             then_do (db_insert_cards (formData (js ''product_id'')) (cardList_of rawCards)) (\<lambda>_.
             revalidate_cards (js ''/'' @ template_null (formData (js ''product_id''))))))"

definition addCards :: "'o ctx \<Rightarrow> (jsstring \<Rightarrow> jsstring option) \<Rightarrow> ('o, unit) action" where
  "addCards c formData =
     then_do (checkAdmin c) (\<lambda>_.
       case formData (js ''cards'') of
         None \<Rightarrow> throw (Error ''TypeError'')
       | Some rawCards \<Rightarrow>
           if length (cardList_of rawCards) = 0 then return_a ()
           else
             then_do (try_catch db_drop_index (\<lambda>_. return_a ())) (\<lambda>_.
             then_do (insertBatches (formData (js ''product_id'')) (cardList_of rawCards) 0) (\<lambda>_.
             revalidate_cards (js ''/'' @ template_null (formData (js ''product_id''))))))"

text \<open>
  \<open>deleteCard\<close> (the same in both builds).  A \<open>Date\<close> is truthy, so
  \<open>card.reservedAt && ...\<close> asks for a reservation that is there.
\<close>

definition deleteCard :: "'o ctx \<Rightarrow> nat \<Rightarrow> ('o, unit) action" where
  "deleteCard c cardId =
     then_do (checkAdmin c) (\<lambda>_.
     then_do (db_find_card cardId) (\<lambda>found.
       case found of
         None \<Rightarrow> throw (Error ''Card not found'')
       | Some crd \<Rightarrow>
           if isUsed crd = Some True then throw (Error ''Cannot delete used card'')
           else if (case reservedAt crd of None \<Rightarrow> False
                    | Some r \<Rightarrow> r > Date_now c - 60 * 1000)
           then throw (Error ''Cannot delete reserved card'')
           else
             then_do (db_delete_card cardId) (\<lambda>_.
             revalidate_cards [])))"

record delete_result =
  deleted :: nat

text \<open>\<open>deleteAllCards\<close> (D1 build); its bound is \<open>(unixepoch() * 1000) - 60000\<close>.\<close>

definition deleteAllCards :: "'o ctx \<Rightarrow> jsstring \<Rightarrow> ('o, delete_result) action" where
  "deleteAllCards c pid =
     then_do (checkAdmin c) (\<lambda>_.
     then_do (db_delete_cards_where pid (unixepoch c * 1000 - 60000)) (\<lambda>result.
     then_do (revalidate_cards (js ''/'' @ pid)) (\<lambda>_.
     return_a \<lparr>deleted = length result\<rparr>)))"

section \<open>The other admin actions\<close>

text \<open>\<open>v || d\<close> and \<open>v || null\<close> for what \<open>formData.get\<close> returns: \<open>null\<close> or a string.\<close>

definition or_str :: "jsstring option \<Rightarrow> jsstring \<Rightarrow> jsstring" where
  "or_str v d = (case v of None \<Rightarrow> d | Some x \<Rightarrow> if truthy x then x else d)"

definition or_null :: "jsstring option \<Rightarrow> jsstring option" where
  "or_null v = (case v of None \<Rightarrow> None | Some x \<Rightarrow> if truthy x then Some x else None)"

definition product_of_form :: "'o ctx \<Rightarrow> (jsstring \<Rightarrow> jsstring option) \<Rightarrow> product_values" where
  "product_of_form c formData =
     \<lparr>pv_id = or_str (formData (js ''id''))
                (js ''prod_'' @ String_of c (Num (of_int (Date_now c)))),
      pv_name = formData (js ''name''),
      pv_description = formData (js ''description''),
      pv_price = formData (js ''price''),
      pv_compareAtPrice =
        (case or_null (formData (js ''compareAtPrice'')) of
           None \<Rightarrow> None
         | Some v \<Rightarrow> if v \<noteq> js ''0'' then Some v else None),
      pv_category = formData (js ''category''),
      pv_image = formData (js ''image''),
      pv_purchaseLimit =
        (case or_null (formData (js ''purchaseLimit'')) of
           None \<Rightarrow> None
         | Some v \<Rightarrow> Some (parseInt c v)),
      pv_isHot = (formData (js ''isHot'') = Some (js ''on''))\<rparr>"

definition ensureCategoriesTable :: "'o ctx \<Rightarrow> ('o, unit) action" where
  "ensureCategoriesTable c = db_run c CREATE_categories"

definition doSave :: "'o ctx \<Rightarrow> product_values \<Rightarrow> ('o, unit) action" where
  "doSave c pv =
     then_do
       (case or_null (pv_category pv) of
          None \<Rightarrow> return_a ()
        | Some category \<Rightarrow>
            then_do (ensureCategoriesTable c) (\<lambda>_. db_run c (INSERT_category_name category)))
       (\<lambda>_. db_run c (UPSERT_product pv))"

definition revalidate_admin_home :: "('o, unit) action" where
  "revalidate_admin_home =
     then_do (revalidatePath (js ''/admin'')) (\<lambda>_. revalidatePath (js ''/''))"

text \<open>\<open>saveProduct\<close> of the D1 build: each \<open>ALTER TABLE\<close> in a \<open>try\<close> of its own.\<close>

definition saveProduct :: "'o ctx \<Rightarrow> (jsstring \<Rightarrow> jsstring option) \<Rightarrow> ('o, unit) action" where
  "saveProduct c formData =
     then_do (checkAdmin c) (\<lambda>_.
     then_do
       (try_catch (doSave c (product_of_form c formData)) (\<lambda>error.
          if includes_str (JSON_stringify error) ''42703'' then
            then_do (try_catch (db_run c ALTER_products_add_compare_at_price)
                       (\<lambda>_. return_a ())) (\<lambda>_.
            then_do (try_catch (db_run c ALTER_products_add_is_hot)
                       (\<lambda>_. return_a ())) (\<lambda>_.
            doSave c (product_of_form c formData)))
          else throw error))
       (\<lambda>_. revalidate_admin_home))"

text \<open>\<open>saveProduct\<close> of the PostgreSQL build: one statement adds both columns.\<close>

definition saveProduct_pg :: "'o ctx \<Rightarrow> (jsstring \<Rightarrow> jsstring option) \<Rightarrow> ('o, unit) action" where
  "saveProduct_pg c formData =
     then_do (checkAdmin c) (\<lambda>_.
     then_do
       (try_catch (doSave c (product_of_form c formData)) (\<lambda>error.
          if includes_str (JSON_stringify error) ''42703'' then
            then_do (db_run c ALTER_products_add_columns) (\<lambda>_.
            doSave c (product_of_form c formData))
          else throw error))
       (\<lambda>_. revalidate_admin_home))"

definition deleteProduct :: "'o ctx \<Rightarrow> jsstring \<Rightarrow> ('o, unit) action" where
  "deleteProduct c pid =
     then_do (checkAdmin c) (\<lambda>_.
     then_do (db_run c (DELETE_product pid)) (\<lambda>_.
     revalidate_admin_home))"

definition toggleProductStatus :: "'o ctx \<Rightarrow> jsstring \<Rightarrow> bool \<Rightarrow> ('o, unit) action" where
  "toggleProductStatus c pid isActive =
     then_do (checkAdmin c) (\<lambda>_.
     then_do (db_run c (UPDATE_product_isActive pid isActive)) (\<lambda>_.
     revalidate_admin_home))"

definition reorderProduct :: "'o ctx \<Rightarrow> jsstring \<Rightarrow> number \<Rightarrow> ('o, unit) action" where
  "reorderProduct c pid newOrder =
     then_do (checkAdmin c) (\<lambda>_.
     then_do (db_run c (UPDATE_product_sortOrder pid newOrder)) (\<lambda>_.
     revalidate_admin_home))"

text \<open>
  \<open>setSetting\<close> of \<open>@/lib/db/queries\<close> is not among the sources: one statement, which the
  backend runs.
\<close>

definition setSetting :: "'o ctx \<Rightarrow> string \<Rightarrow> jsstring \<Rightarrow> ('o, unit) action" where
  "setSetting c key v = db_run c (SET_setting key v)"

definition saveShopName :: "'o ctx \<Rightarrow> jsstring \<Rightarrow> ('o, unit) action" where
  "saveShopName c rawName =
     then_do (checkAdmin c) (\<lambda>_.
       if \<not> truthy (trim rawName) then throw (Error ''Shop name cannot be empty'')
       else if length (trim rawName) > 64 then throw (Error ''Shop name is too long'')
       else
         then_do
           (try_catch (setSetting c ''shop_name'' (trim rawName)) (\<lambda>error.
              if includes_str (message error) ''does not exist''
                 \<or> code error = Some ''42P01''
                 \<or> includes_str (JSON_stringify error) ''42P01''
              then
                then_do (db_run c CREATE_settings) (\<lambda>_.
                setSetting c ''shop_name'' (trim rawName))
              else throw error))
           (\<lambda>_.
         then_do (revalidatePath (js ''/'')) (\<lambda>_.
         revalidatePath (js ''/admin''))))"

definition deleteReview :: "'o ctx \<Rightarrow> nat \<Rightarrow> ('o, unit) action" where
  "deleteReview c reviewId =
     then_do (checkAdmin c) (\<lambda>_.
     then_do (db_run c (DELETE_review reviewId)) (\<lambda>_.
     revalidatePath (js ''/admin/reviews'')))"

text \<open>\<open>Number.isFinite(n) && n > 0 ? String(n) : d\<close>\<close>

definition positive_or :: "'o ctx \<Rightarrow> number \<Rightarrow> jsstring \<Rightarrow> jsstring" where
  "positive_or c n d = (if isFinite n \<and> positive n then String_of c n else d)"

definition saveLowStockThreshold :: "'o ctx \<Rightarrow> jsstring \<Rightarrow> ('o, unit) action" where
  "saveLowStockThreshold c raw =
     then_do (checkAdmin c) (\<lambda>_.
     then_do (setSetting c ''low_stock_threshold''
                (positive_or c (parseInt10 c (trim raw)) (js ''5''))) (\<lambda>_.
     revalidatePath (js ''/admin'')))"

definition saveCheckinReward :: "'o ctx \<Rightarrow> jsstring \<Rightarrow> ('o, unit) action" where
  "saveCheckinReward c raw =
     then_do (checkAdmin c) (\<lambda>_.
     then_do (setSetting c ''checkin_reward''
                (positive_or c (parseInt10 c (trim raw)) (js ''10''))) (\<lambda>_.
     then_do (setSetting c ''checkin_reward''
                (positive_or c (parseInt10 c (trim raw)) (js ''10''))) (\<lambda>_.
     revalidatePath (js ''/admin''))))"

definition saveCheckinEnabled :: "'o ctx \<Rightarrow> bool \<Rightarrow> ('o, unit) action" where
  "saveCheckinEnabled c enabled =
     then_do (checkAdmin c) (\<lambda>_.
     then_do (setSetting c ''checkin_enabled''
                (if enabled then js ''true'' else js ''false'')) (\<lambda>_.
     revalidate_admin_home))"

definition category_of_form :: "'o ctx \<Rightarrow> (jsstring \<Rightarrow> jsstring option) \<Rightarrow> category_values" where
  "category_of_form c formData =
     \<lparr>cv_name = trim (or_str (formData (js ''name'')) []),
      cv_icon = or_null (Some (trim (or_str (formData (js ''icon'')) []))),
      cv_sortOrder = or_zero (parseInt10 c (or_str (formData (js ''sortOrder'')) (js ''0''))),
      cv_updatedAt = Date_now c\<rparr>"

definition revalidate_categories :: "('o, unit) action" where
  "revalidate_categories =
     then_do (revalidatePath (js ''/admin/categories'')) (\<lambda>_. revalidatePath (js ''/''))"

definition saveCategory :: "'o ctx \<Rightarrow> (jsstring \<Rightarrow> jsstring option) \<Rightarrow> ('o, unit) action" where
  "saveCategory c formData =
     then_do (checkAdmin c) (\<lambda>_.
     then_do (ensureCategoriesTable c) (\<lambda>_.
       if \<not> truthy (cv_name (category_of_form c formData))
       then throw (Error ''Category name is required'')
       else
         then_do
           (case or_null (formData (js ''id'')) of
              Some idRaw \<Rightarrow>
                db_run c (UPDATE_category (parseInt10 c idRaw) (category_of_form c formData))
            | None \<Rightarrow> db_run c (INSERT_category (category_of_form c formData)))
           (\<lambda>_. revalidate_categories)))"

definition deleteCategory :: "'o ctx \<Rightarrow> nat \<Rightarrow> ('o, unit) action" where
  "deleteCategory c cid =
     then_do (checkAdmin c) (\<lambda>_.
     then_do (ensureCategoriesTable c) (\<lambda>_.
     then_do (db_run c (DELETE_category cid)) (\<lambda>_.
     revalidate_categories)))"

subsection \<open>Every exported action, as one call\<close>

datatype call =
    SaveProduct "jsstring \<Rightarrow> jsstring option"
  | DeleteProduct jsstring
  | ToggleProductStatus jsstring bool
  | ReorderProduct jsstring number
  | AddCards "jsstring \<Rightarrow> jsstring option"
  | AddCardsBatch jsstring "jsstring list"
  | DeleteCard nat
  | DeleteAllCards jsstring
  | SaveShopName jsstring
  | DeleteReview nat
  | SaveLowStockThreshold jsstring
  | SaveCheckinReward jsstring
  | SaveCheckinEnabled bool
  | SaveCategory "jsstring \<Rightarrow> jsstring option"
  | DeleteCategory nat

datatype response = Done | Added batch_result | Removed delete_result

definition finish :: "('o, unit) action \<Rightarrow> ('o, response) action" where
  "finish m = then_do m (\<lambda>_. return_a Done)"

text \<open>The module of the D1 build, which exports all fifteen actions.\<close>

fun perform :: "'o ctx \<Rightarrow> call \<Rightarrow> ('o, response) action" where
  "perform c (SaveProduct formData) = finish (saveProduct c formData)"
| "perform c (DeleteProduct pid) = finish (deleteProduct c pid)"
| "perform c (ToggleProductStatus pid isActive) = finish (toggleProductStatus c pid isActive)"
| "perform c (ReorderProduct pid newOrder) = finish (reorderProduct c pid newOrder)"
| "perform c (AddCards formData) = finish (addCards c formData)"
| "perform c (AddCardsBatch pid cardKeys) =
     then_do (addCardsBatch c pid cardKeys) (\<lambda>r. return_a (Added r))"
| "perform c (DeleteCard cardId) = finish (deleteCard c cardId)"
| "perform c (DeleteAllCards pid) =
     then_do (deleteAllCards c pid) (\<lambda>r. return_a (Removed r))"
| "perform c (SaveShopName rawName) = finish (saveShopName c rawName)"
| "perform c (DeleteReview reviewId) = finish (deleteReview c reviewId)"
| "perform c (SaveLowStockThreshold raw) = finish (saveLowStockThreshold c raw)"
| "perform c (SaveCheckinReward raw) = finish (saveCheckinReward c raw)"
| "perform c (SaveCheckinEnabled enabled) = finish (saveCheckinEnabled c enabled)"
| "perform c (SaveCategory formData) = finish (saveCategory c formData)"
| "perform c (DeleteCategory cid) = finish (deleteCategory c cid)"

text \<open>
  The module of the PostgreSQL build: it has no \<open>deleteAllCards\<close>, and its \<open>saveProduct\<close>,
  \<open>addCards\<close> and \<open>addCardsBatch\<close> differ; the other actions read the same.
\<close>

fun perform_pg :: "'o ctx \<Rightarrow> call \<Rightarrow> ('o, response) action option" where
  "perform_pg c (SaveProduct formData) = Some (finish (saveProduct_pg c formData))"
| "perform_pg c (AddCards formData) = Some (finish (addCards_pg c formData))"
| "perform_pg c (AddCardsBatch pid cardKeys) =
     Some (then_do (addCardsBatch_pg c pid cardKeys) (\<lambda>r. return_a (Added r)))"
| "perform_pg c (DeleteAllCards pid) = None"
| "perform_pg c a = Some (perform c a)"

section \<open>The upload page\<close>

text \<open>
  The state of \<open>CardsContent\<close> and what it shows.  Two fields keep what a run has done: the
  batches handed to \<open>addCardsBatch\<close> and the pairs (\<open>processedCount\<close>, \<open>progress\<close>) set after
  each batch, both in order.
\<close>

datatype toast = ToastError string | ToastNoCards | ToastUploadSuccess nat

record client =
  uploading :: bool
  progress :: int
  totalCount :: nat
  processedCount :: nat
  toasts :: "toast list"
  refreshed :: nat
  sent :: "jsstring list list"
  shown :: "(nat \<times> int) list"

definition BATCH_SIZE :: nat where
  "BATCH_SIZE = 50"

text \<open>\<open>Math.round\<close>: the nearest integer, a half going up.\<close>

definition Math_round :: "rat \<Rightarrow> int" where
  "Math_round x = \<lfloor>x + 1 / 2\<rfloor>"

text \<open>
  The loop of \<open>handleFileUpload\<close>,
  \<open>for (let i = 0; i < cardList.length; i += BATCH_SIZE)\<close>, for any batch size \<open>bs\<close> and
  for the \<open>addCardsBatch\<close> the page is built with (\<open>writer\<close>, already given the product).
  The source has \<open>bs = 50\<close>; a loop with \<open>bs = 0\<close> would not end, and the model, which must
  return, does not enter it.
\<close>

function uploadLoop ::
  "nat \<Rightarrow> (jsstring list \<Rightarrow> ('o, batch_result) action) \<Rightarrow> jsstring list \<Rightarrow> nat \<Rightarrow> nat
     \<Rightarrow> client \<times> 'o server \<Rightarrow> (error + nat) \<times> client \<times> 'o server" where
  "uploadLoop bs writer cardList i successCount (cl, s) =
     (if 0 < bs \<and> i < length cardList then
        (case writer (slice i (i + bs) cardList) s of
           (Inl e, s') \<Rightarrow> (Inl e, cl\<lparr>sent := sent cl @ [slice i (i + bs) cardList]\<rparr>, s')
         | (Inr result, s') \<Rightarrow>
             uploadLoop bs writer cardList (i + bs) (successCount + success result)
               (cl\<lparr>processedCount := min (i + bs) (length cardList),
                   progress := Math_round (of_nat (i + bs) / of_nat (length cardList) * 100),
                   sent := sent cl @ [slice i (i + bs) cardList],
                   shown := shown cl @
                     [(min (i + bs) (length cardList),
                       Math_round (of_nat (i + bs) / of_nat (length cardList) * 100))]\<rparr>,
                s'))
      else (Inr successCount, cl, s))"
  by pat_completeness auto
termination
  by (relation "measure (\<lambda>(bs, writer, cardList, i, successCount, st). length cardList - i)")
     auto

text \<open>The \<open>finally\<close> block.\<close>

definition finally_block :: "client \<Rightarrow> client" where
  "finally_block cl = cl\<lparr>uploading := False, progress := 0, processedCount := 0, totalCount := 0\<rparr>"

text \<open>
  \<open>handleFileUpload\<close>; \<open>file\<close> is the text of the chosen file, \<open>None\<close> when none was chosen.
  A \<open>return\<close> inside \<open>try\<close> runs the \<open>finally\<close> block as well.
\<close>

definition handleFileUpload ::
  "(jsstring list \<Rightarrow> ('o, batch_result) action) \<Rightarrow> jsstring option
     \<Rightarrow> client \<times> 'o server \<Rightarrow> client \<times> 'o server" where
  "handleFileUpload writer file st =
     (case file of
        None \<Rightarrow> st
      | Some text \<Rightarrow>
          (case st of (cl0, s) \<Rightarrow>
             let cl = cl0\<lparr>uploading := True, progress := 0, processedCount := 0, totalCount := 0\<rparr>
             in
               if length (cardList_of text) = 0
               then (finally_block (cl\<lparr>toasts := toasts cl @ [ToastNoCards], uploading := False\<rparr>), s)
               else
                 (case uploadLoop BATCH_SIZE writer (cardList_of text) 0 0
                         (cl\<lparr>totalCount := length (cardList_of text)\<rparr>, s) of
                    (Inl e, cl', s') \<Rightarrow>
                      (finally_block (cl'\<lparr>toasts := toasts cl' @ [ToastError (message e)]\<rparr>), s')
                  | (Inr successCount, cl', s') \<Rightarrow>
                      (finally_block (cl'\<lparr>toasts := toasts cl' @ [ToastUploadSuccess successCount],
                                    refreshed := Suc (refreshed cl')\<rparr>), s'))))"

section \<open>The words of the specification\<close>

text \<open>
  The handle of the caller, if there is one, and whether the caller is recognised as an
  administrator: the handle is not empty and, lower-cased, is one of the entries of the
  lower-cased allow-list.
\<close>

definition caller_handle :: "'o ctx \<Rightarrow> jsstring option" where
  "caller_handle c =
     (case auth c of
        None \<Rightarrow> None
      | Some sess \<Rightarrow> (case user sess of None \<Rightarrow> None | Some u \<Rightarrow> username u))"

definition isAdmin :: "'o ctx \<Rightarrow> bool" where
  "isAdmin c =
     (case caller_handle c of
        None \<Rightarrow> False
      | Some n \<Rightarrow> n \<noteq> [] \<and> toLowerCase c n \<in> set (adminUsers c))"

text \<open>
  \<open>chunk(keys, batchSize)\<close>: contiguous runs of \<open>n\<close> elements, in order, the last one
  possibly shorter.
\<close>

function chunk :: "nat \<Rightarrow> 'a list \<Rightarrow> 'a list list" where
  "chunk n xs = (if n = 0 \<or> xs = [] then [] else take n xs # chunk n (drop n xs))"
  by pat_completeness auto
termination
  by (relation "measure (\<lambda>(n, xs). length xs)") auto

text \<open>The offsets the loop of the upload visits, from \<open>i\<close> on.\<close>

function batch_offsets :: "nat \<Rightarrow> nat \<Rightarrow> nat \<Rightarrow> nat list" where
  "batch_offsets bs len i =
     (if 0 < bs \<and> i < len then i # batch_offsets bs len (i + bs) else [])"
  by pat_completeness auto
termination
  by (relation "measure (\<lambda>(bs, len, i). len - i)") auto

text \<open>No insert statement of a trace takes more than \<open>n\<close> keys.\<close>

fun insert_size :: "stmt \<Rightarrow> nat" where
  "insert_size (INSERT_cards pid keys) = length keys"
| "insert_size st = 0"

definition inserts_bounded :: "nat \<Rightarrow> stmt list \<Rightarrow> bool" where
  "inserts_bounded n tr = list_all (\<lambda>st. insert_size st \<le> n) tr"

text \<open>
  A card key may be deleted with the others of its product: it belongs to the product, its
  used flag is false or absent, and it has no reservation or one made before \<open>t\<close>.
\<close>

definition safely_deletable :: "jsstring \<Rightarrow> int \<Rightarrow> card \<Rightarrow> bool" where
  "safely_deletable pid t c \<longleftrightarrow>
     productId c = pid
     \<and> (isUsed c = Some False \<or> isUsed c = None)
     \<and> (reservedAt c = None \<or> (\<exists>r. reservedAt c = Some r \<and> r < t))"

text \<open>The rows of one product.\<close>

definition cards_of :: "jsstring \<Rightarrow> 'o server \<Rightarrow> card list" where
  "cards_of pid s = filter (\<lambda>c. productId c = pid) (cards s)"

text \<open>A server with nothing in it, and contexts to run the actions in.\<close>

definition server0 :: "unit server" where
  "server0 = \<lparr>cards = [], cards_seq = 1, cards_uq = True, other = (),
              trace = [], revalidated = []\<rparr>"

definition asciiLower :: "jsstring \<Rightarrow> jsstring" where
  "asciiLower s = map (\<lambda>c. if 65 \<le> c \<and> c \<le> 90 then c + 32 else c) s"

definition ctx_of :: "jsstring option \<Rightarrow> jsstring option \<Rightarrow> unit ctx" where
  "ctx_of admins handle =
     \<lparr>toLowerCase = asciiLower, parseInt = (\<lambda>s. NaN), parseInt10 = (\<lambda>s. NaN),
      String_of = (\<lambda>n. []), ADMIN_USERS = admins,
      auth = Some \<lparr>user = Some \<lparr>username = handle\<rparr>\<rparr>,
      Date_now = 1700000000000, unixepoch = 1700000000,
      backend = (\<lambda>st o'. (Inr (), o'))\<rparr>"

definition alice :: "unit ctx" where
  "alice = ctx_of (Some (js ''Alice,bob'')) (Some (js ''ALICE''))"

definition mallory :: "unit ctx" where
  "mallory = ctx_of (Some (js ''Alice,bob'')) (Some (js ''mallory''))"

definition unused_card :: "nat \<Rightarrow> jsstring \<Rightarrow> jsstring \<Rightarrow> int option \<Rightarrow> card" where
  "unused_card i pid k r =
     \<lparr>card_id = i, productId = pid, cardKey = k, isUsed = Some False, reservedAt = r\<rparr>"

definition used_card :: "nat \<Rightarrow> jsstring \<Rightarrow> jsstring \<Rightarrow> card" where
  "used_card i pid k =
     \<lparr>card_id = i, productId = pid, cardKey = k, isUsed = Some True, reservedAt = None\<rparr>"

definition server_with :: "card list \<Rightarrow> unit server" where
  "server_with rows = server0\<lparr>cards := rows, cards_seq := Suc (length rows)\<rparr>"

definition five_cards :: "card list" where
  "five_cards = [unused_card 1 (js ''p1'') (js ''k1'') None,
                 used_card 2 (js ''p1'') (js ''k2''),
                 unused_card 3 (js ''p1'') (js ''k3'') None,
                 used_card 4 (js ''p1'') (js ''k4''),
                 unused_card 5 (js ''p1'') (js ''k5'') None]"

definition example_file :: jsstring where
  "example_file = js ''k1'' @ [LF] @ js '' k1 '' @ [LF] @ js ''k2,x''"

definition client0 :: client where
  "client0 = \<lparr>uploading = False, progress = 0, totalCount = 0, processedCount = 0,
              toasts = [], refreshed = 0, sent = [], shown = []\<rparr>"

definition eleven_keys :: "jsstring list" where
  "eleven_keys = [js ''k01'', js ''k02'', js ''k03'', js ''k04'', js ''k05'', js ''k06'',
                  js ''k07'', js ''k08'', js ''k09'', js ''k10'', js ''k11'']"

declare insertBatches.simps [simp del] chunk.simps [simp del] uploadLoop.simps [simp del]
  batch_offsets.simps [simp del]

section \<open>Properties of the string functions\<close>

lemma split_str_not_Nil: "split_str sep s \<noteq> []"
  by (induction s) (auto split: list.splits)

lemma split_str_pieces: "l \<in> set (split_str sep s) \<Longrightarrow> sep \<notin> set l"
proof (induction s arbitrary: l)
  case Nil
  then show ?case by simp
next
  case (Cons c cs)
  show ?case
  proof (cases "c = sep")
    case True
    with Cons show ?thesis by auto
  next
    case False
    obtain p ps where ps: "split_str sep cs = p # ps"
      using split_str_not_Nil [of sep cs] by (cases "split_str sep cs") auto
    with Cons False show ?thesis by auto
  qed
qed

lemma join_split_str: "join_str sep (split_str sep s) = s"
proof (induction s)
  case Nil
  then show ?case by simp
next
  case (Cons c cs)
  obtain p ps where ps: "split_str sep cs = p # ps"
    using split_str_not_Nil [of sep cs] by (cases "split_str sep cs") auto
  with Cons show ?case by (cases ps) auto
qed

lemma split_str_no_sep: "sep \<notin> set l \<Longrightarrow> split_str sep l = [l]"
  by (induction l) auto

lemma split_str_append:
  "sep \<notin> set l \<Longrightarrow> split_str sep (l @ sep # s) = l # split_str sep s"
  by (induction l) auto

lemma split_join_str:
  "ls \<noteq> [] \<Longrightarrow> \<forall>l\<in>set ls. sep \<notin> set l \<Longrightarrow> split_str sep (join_str sep ls) = ls"
proof (induction sep ls rule: join_str.induct)
  case (1 sep)
  then show ?case by simp
next
  case (2 sep l)
  then show ?case by (simp add: split_str_no_sep)
next
  case (3 sep l l' ls)
  then show ?case by (simp add: split_str_append)
qed

lemma dropWhile_rev_prefix:
  "\<exists>t. d = rev (dropWhile P (rev d)) @ t \<and> (\<forall>c\<in>set t. P c)"
proof -
  have "rev d = takeWhile P (rev d) @ dropWhile P (rev d)" by simp
  then have "d = rev (dropWhile P (rev d)) @ rev (takeWhile P (rev d))"
    by (metis rev_append rev_rev_ident)
  moreover have "\<forall>c\<in>set (rev (takeWhile P (rev d))). P c"
    by (auto dest: set_takeWhileD)
  ultimately show ?thesis by blast
qed

text \<open>What \<open>trim\<close> returns begins and ends with a code unit that is no white space.\<close>

lemma trim_hd: "trim s \<noteq> [] \<Longrightarrow> \<not> isWhiteSpace (hd (trim s))"
proof -
  assume ne: "trim s \<noteq> []"
  define d where "d = dropWhile isWhiteSpace s"
  obtain t where t: "d = trim s @ t"
    using dropWhile_rev_prefix [of d isWhiteSpace] by (auto simp: trim_def d_def)
  with ne have "d \<noteq> []" and "hd (trim s) = hd d" by auto
  then show ?thesis
    unfolding d_def by (metis hd_dropWhile)
qed

lemma trim_last: "trim s \<noteq> [] \<Longrightarrow> \<not> isWhiteSpace (last (trim s))"
proof -
  assume ne: "trim s \<noteq> []"
  define r where "r = dropWhile isWhiteSpace (rev (dropWhile isWhiteSpace s))"
  have tr: "trim s = rev r" by (simp add: trim_def r_def)
  with ne have "r \<noteq> []" by simp
  then have "\<not> isWhiteSpace (hd r)"
    unfolding r_def by (metis hd_dropWhile)
  with tr \<open>r \<noteq> []\<close> show ?thesis by (simp add: last_rev)
qed

text \<open>A string that begins and ends with no white space is left as it is.\<close>

lemma trim_id:
  assumes "s \<noteq> []" "\<not> isWhiteSpace (hd s)" "\<not> isWhiteSpace (last s)"
  shows "trim s = s"
proof -
  from assms have a: "dropWhile isWhiteSpace s = s" by (cases s) auto
  from assms have "rev s \<noteq> []" "\<not> isWhiteSpace (hd (rev s))" by (auto simp: hd_rev)
  then have "dropWhile isWhiteSpace (rev s) = rev s" by (cases "rev s") auto
  with a show ?thesis by (simp add: trim_def)
qed

lemma trim_Nil [simp]: "trim [] = []"
  by (simp add: trim_def)

lemma trim_idem [simp]: "trim (trim s) = trim s"
proof (cases "trim s = []")
  case True
  then show ?thesis by simp
next
  case False
  then show ?thesis by (rule trim_id) (simp_all add: trim_hd trim_last False)
qed

text \<open>\<open>trim\<close> removes white space only, and only at the two ends.\<close>

lemma trim_decomp:
  "\<exists>a b. s = a @ trim s @ b \<and> (\<forall>c\<in>set a. isWhiteSpace c) \<and> (\<forall>c\<in>set b. isWhiteSpace c)"
proof -
  define d where "d = dropWhile isWhiteSpace s"
  have "s = takeWhile isWhiteSpace s @ d" by (simp add: d_def)
  moreover obtain t where "d = trim s @ t" "\<forall>c\<in>set t. isWhiteSpace c"
    using dropWhile_rev_prefix [of d isWhiteSpace] by (auto simp: trim_def d_def)
  moreover have "\<forall>c\<in>set (takeWhile isWhiteSpace s). isWhiteSpace c"
    by (auto dest: set_takeWhileD)
  ultimately show ?thesis by metis
qed

text \<open>The keys \<open>cardList_of\<close> returns are trimmed and not empty.\<close>

lemma cardList_of_trimmed: "k \<in> set (cardList_of text) \<Longrightarrow> k \<noteq> [] \<and> trim k = k"
  by (auto simp: cardList_of_def truthy_def)

section \<open>Normalization of the uploaded text\<close>

text \<open>
  Claim C8.  A text is the lines of the file joined by newlines, and \<open>cardList_of\<close> returns
  exactly these lines, each one trimmed, without those that are empty after trimming, in
  order.  Newline is the only separator: a comma (or any other code unit) inside a
  line stays inside the one key that line gives.
\<close>

theorem cardList_of_splits_on_newline_only:
  assumes "ls \<noteq> []" and "\<forall>l\<in>set ls. LF \<notin> set l"
  shows "cardList_of (join_str LF ls) = filter (\<lambda>l. l \<noteq> []) (map trim ls)"
  using assms by (simp add: cardList_of_def split_join_str truthy_def [abs_def])

theorem cardList_of_splits_on_newline_only_witness:
  "[js ''AB,CD-1'', js ''  x, y  '', js '''', [9]] \<noteq> []
   \<and> LF \<notin> set (js ''AB,CD-1'') \<and> LF \<notin> set (js ''  x, y  '')
   \<and> LF \<notin> set (js '''') \<and> LF \<notin> set [9]
   \<and> join_str LF [js ''AB,CD-1'', js ''  x, y  '', js '''', [9]]
       = js ''AB,CD-1'' @ [10] @ js ''  x, y  '' @ [10] @ [10] @ [9]
   \<and> cardList_of (js ''AB,CD-1'' @ [10] @ js ''  x, y  '' @ [10] @ [10] @ [9])
       = [js ''AB,CD-1'', js ''x, y'']"
  using cardList_of_splits_on_newline_only
    [of "[js ''AB,CD-1'', js ''  x, y  '', js '''', [9]]"]
  by (simp add: js_def LF_def trim_def isWhiteSpace_def)

section \<open>The admin actions: what they do\<close>

lemma checkAdmin_isAdmin: "checkAdmin c s = (if isAdmin c then (Inr (), s) else (Inl Unauthorized, s))"
  by (simp add: checkAdmin_def isAdmin_def caller_handle_def throw_def return_a_def truthy_def
           split: option.splits)

lemma then_do_checkAdmin_fail:
  "\<not> isAdmin c \<Longrightarrow> then_do (checkAdmin c) f s = (Inl Unauthorized, s)"
  by (simp add: then_do_def checkAdmin_isAdmin)

lemma then_do_checkAdmin_ok:
  "isAdmin c \<Longrightarrow> then_do (checkAdmin c) f s = f () s"
  by (simp add: then_do_def checkAdmin_isAdmin)

lemma then_do_Inr: "m s = (Inr x, s') \<Longrightarrow> then_do m f s = f x s'"
  by (simp add: then_do_def)

lemma then_do_Inl: "m s = (Inl e, s') \<Longrightarrow> then_do m f s = (Inl e, s')"
  by (simp add: then_do_def)

lemma perform_unauthorized:
  "\<not> isAdmin c \<Longrightarrow> perform c a s = (Inl Unauthorized, s)"
  by (cases a)
     (simp_all add: finish_def then_do_Inl then_do_checkAdmin_fail
        saveProduct_def deleteProduct_def toggleProductStatus_def reorderProduct_def
        addCards_def addCardsBatch_def deleteCard_def deleteAllCards_def saveShopName_def
        deleteReview_def saveLowStockThreshold_def saveCheckinReward_def
        saveCheckinEnabled_def saveCategory_def deleteCategory_def)

lemma perform_pg_unauthorized:
  "\<not> isAdmin c \<Longrightarrow> perform_pg c a = Some m \<Longrightarrow> m s = (Inl Unauthorized, s)"
  using perform_unauthorized [of c a s]
  by (cases a)
     (auto simp add: finish_def then_do_Inl then_do_checkAdmin_fail
        saveProduct_pg_def addCards_pg_def addCardsBatch_pg_def)


lemma chunk_Nil [simp]: "chunk n [] = []"
  by (simp add: chunk.simps)

lemma chunk_step: "0 < n \<Longrightarrow> xs \<noteq> [] \<Longrightarrow> chunk n xs = take n xs # chunk n (drop n xs)"
  by (subst chunk.simps) simp

lemma concat_chunk: "0 < n \<Longrightarrow> concat (chunk n xs) = xs"
proof (induction n xs rule: chunk.induct)
  case (1 n xs)
  then show ?case by (cases "xs = []") (simp_all add: chunk_step)
qed

lemma chunk_sizes: "b \<in> set (chunk n xs) \<Longrightarrow> 0 < length b \<and> length b \<le> n"
proof (induction n xs rule: chunk.induct)
  case (1 n xs)
  show ?case
  proof (cases "n = 0 \<or> xs = []")
    case True
    with 1(2) show ?thesis by (auto simp: chunk.simps)
  next
    case False
    with 1 show ?thesis by (auto simp: chunk_step)
  qed
qed

lemma chunk_full: "b \<in> set (butlast (chunk n xs)) \<Longrightarrow> length b = n"
proof (induction n xs rule: chunk.induct)
  case (1 n xs)
  show ?case
  proof (cases "n = 0 \<or> xs = []")
    case True
    with 1(2) show ?thesis by (auto simp: chunk.simps)
  next
    case False
    show ?thesis
    proof (cases "chunk n (drop n xs) = []")
      case True
      with False 1(2) show ?thesis by (simp add: chunk_step)
    next
      case ne: False
      then have "drop n xs \<noteq> []" by auto
      then have "n \<le> length xs" by simp
      with False ne 1 show ?thesis by (auto simp: chunk_step)
    qed
  qed
qed

lemma new_rows_Nil [simp]: "new_rows pid [] n = []"
  by (simp add: new_rows_def)

lemma new_rows_append:
  "new_rows pid (a @ b) n = new_rows pid a n @ new_rows pid b (n + length a)"
proof -
  have "[n ..< n + length (a @ b)] = [n ..< n + length a] @ [n + length a ..< n + length a + length b]"
    using upt_add_eq_append [of n "n + length a" "length b"] by (simp add: add.assoc)
  then show ?thesis by (simp add: new_rows_def)
qed

lemma map_cardKey_new_rows [simp]: "map cardKey (new_rows pid keys n) = keys"
  by (simp add: new_rows_def map_fst_zip comp_def case_prod_unfold)

lemma length_new_rows [simp]: "length (new_rows pid keys n) = length keys"
  by (simp add: new_rows_def)

lemma new_rows_fields:
  "r \<in> set (new_rows pid keys n) \<Longrightarrow>
     productId r = pid \<and> isUsed r = Some False \<and> reservedAt r = None \<and> n \<le> card_id r
     \<and> card_id r < n + length keys"
  by (auto simp: new_rows_def dest: set_zip_rightD)

lemma db_insert_cards_ok:
  "\<not> cards_uq s \<Longrightarrow>
     db_insert_cards (Some pid) keys s =
       (Inr (), s\<lparr>cards := cards s @ new_rows pid keys (cards_seq s),
                   cards_seq := cards_seq s + length keys,
                   trace := trace s @ [INSERT_cards (Some pid) keys]\<rparr>)"
  by (simp add: db_insert_cards_def uq_violation_def logged_def)

lemma insertBatches_ok:
  "\<not> cards_uq s \<Longrightarrow>
     insertBatches (Some pid) keys i s =
       (Inr (), s\<lparr>cards := cards s @ new_rows pid (drop i keys) (cards_seq s),
                   cards_seq := cards_seq s + length (drop i keys),
                   trace := trace s @
                     map (INSERT_cards (Some pid)) (chunk BATCH_SIZE_admin (drop i keys))\<rparr>)"
proof (induction "Some pid" keys i s rule: insertBatches.induct)
  case (1 keys i s)
  show ?case
  proof (cases "i < length keys")
    case False
    then show ?thesis by (simp add: insertBatches.simps)
  next
    case True
    let ?b = "slice i (i + BATCH_SIZE_admin) keys"
    let ?s' = "s\<lparr>cards := cards s @ new_rows pid ?b (cards_seq s),
                   cards_seq := cards_seq s + length ?b,
                   trace := trace s @ [INSERT_cards (Some pid) ?b]\<rparr>"
    have ins: "db_insert_cards (Some pid) ?b s = (Inr (), ?s')"
      using 1(2) by (rule db_insert_cards_ok)
    have b: "?b = take BATCH_SIZE_admin (drop i keys)" by (simp add: slice_def)
    have d: "drop (i + BATCH_SIZE_admin) keys = drop BATCH_SIZE_admin (drop i keys)"
      by (metis drop_drop add.commute)
    have ne: "drop i keys \<noteq> []" using True by simp
    have split: "drop i keys = ?b @ drop (i + BATCH_SIZE_admin) keys"
      by (simp only: b d append_take_drop_id)
    have IH: "insertBatches (Some pid) keys (i + BATCH_SIZE_admin) ?s' =
       (Inr (), ?s'\<lparr>cards := cards ?s' @ new_rows pid (drop (i + BATCH_SIZE_admin) keys) (cards_seq ?s'),
                   cards_seq := cards_seq ?s' + length (drop (i + BATCH_SIZE_admin) keys),
                   trace := trace ?s' @
                     map (INSERT_cards (Some pid))
                       (chunk BATCH_SIZE_admin (drop (i + BATCH_SIZE_admin) keys))\<rparr>)"
      using 1(1) [OF True ins [symmetric] refl] 1(2) by simp
    have rows: "new_rows pid (drop i keys) (cards_seq s) =
        new_rows pid ?b (cards_seq s) @
        new_rows pid (drop (i + BATCH_SIZE_admin) keys) (cards_seq s + length ?b)"
      by (subst split) (rule new_rows_append)
    have len: "length (drop i keys) = length ?b + length (drop (i + BATCH_SIZE_admin) keys)"
      by (subst split) (simp only: length_append)
    have lb: "length ?b = min BATCH_SIZE_admin (length keys - i)"
      by (simp add: slice_def)
    have ch: "chunk BATCH_SIZE_admin (drop i keys) =
        ?b # chunk BATCH_SIZE_admin (drop (i + BATCH_SIZE_admin) keys)"
      unfolding b d using ne by (intro chunk_step) (simp_all add: BATCH_SIZE_admin_def)
    have "insertBatches (Some pid) keys i s =
        insertBatches (Some pid) keys (i + BATCH_SIZE_admin) ?s'"
      by (subst insertBatches.simps) (simp add: True ins)
    also note IH
    finally show ?thesis using True by (simp add: rows ch lb)
  qed
qed

lemma revalidate_cards_eq:
  "revalidate_cards t s =
     (Inr (), s\<lparr>revalidated := revalidated s @ [js ''/admin'', js ''/admin/cards'' @ t, js ''/'']\<rparr>)"
  by (simp add: revalidate_cards_def then_do_def revalidatePath_def)

lemma drop_index_eq:
  "try_catch db_drop_index (\<lambda>_. return_a ()) s =
     (Inr (), s\<lparr>cards_uq := False, trace := trace s @ [DROP_INDEX]\<rparr>)"
  by (simp add: try_catch_def db_drop_index_def logged_def)

lemma addCardsBatch_admin:
  assumes "isAdmin c"
  shows "addCardsBatch c pid keys s =
     (if validKeys keys = [] then (Inr \<lparr>success = 0\<rparr>, s)
      else (Inr \<lparr>success = length (validKeys keys)\<rparr>,
            s\<lparr>cards := cards s @ new_rows pid (validKeys keys) (cards_seq s),
              cards_seq := cards_seq s + length (validKeys keys),
              cards_uq := False,
              trace := trace s @ DROP_INDEX #
                map (INSERT_cards (Some pid)) (chunk BATCH_SIZE_admin (validKeys keys)),
              revalidated := revalidated s @
                [js ''/admin'', js ''/admin/cards'' @ js ''/'' @ pid, js ''/'']\<rparr>))"
proof (cases "validKeys keys = []")
  case True
  with assms show ?thesis
    by (simp add: addCardsBatch_def then_do_checkAdmin_ok return_a_def)
next
  case False
  let ?s1 = "s\<lparr>cards_uq := False, trace := trace s @ [DROP_INDEX]\<rparr>"
  have ins: "insertBatches (Some pid) (validKeys keys) 0 ?s1 =
      (Inr (), ?s1\<lparr>cards := cards ?s1 @ new_rows pid (drop 0 (validKeys keys)) (cards_seq ?s1),
                   cards_seq := cards_seq ?s1 + length (drop 0 (validKeys keys)),
                   trace := trace ?s1 @
                     map (INSERT_cards (Some pid))
                       (chunk BATCH_SIZE_admin (drop 0 (validKeys keys)))\<rparr>)"
    by (rule insertBatches_ok) simp
  from False show ?thesis
    unfolding addCardsBatch_def
    apply (subst then_do_checkAdmin_ok [OF assms])
    apply (simp only: length_0_conv if_False)
    apply (subst then_do_Inr [where m = "try_catch db_drop_index (\<lambda>_. return_a ())", OF drop_index_eq])
    apply (subst then_do_Inr [where m = "insertBatches (Some pid) (validKeys keys) 0", OF ins])
    apply (subst then_do_Inr [where m = "revalidate_cards (js ''/'' @ pid)", OF revalidate_cards_eq])
    apply (simp add: return_a_def)
    done
qed

lemma addCardsBatch_pg_admin:
  assumes "isAdmin c"
  shows "addCardsBatch_pg c pid keys s =
     (if validKeys keys = [] then (Inr \<lparr>success = 0\<rparr>, s)
      else (Inr \<lparr>success = length (validKeys keys)\<rparr>,
            s\<lparr>cards := cards s @ new_rows pid (validKeys keys) (cards_seq s),
              cards_seq := cards_seq s + length (validKeys keys),
              cards_uq := False,
              trace := trace s @ [DROP_INDEX, INSERT_cards (Some pid) (validKeys keys)],
              revalidated := revalidated s @
                [js ''/admin'', js ''/admin/cards'' @ js ''/'' @ pid, js ''/'']\<rparr>))"
proof (cases "validKeys keys = []")
  case True
  with assms show ?thesis
    by (simp add: addCardsBatch_pg_def then_do_checkAdmin_ok return_a_def)
next
  case False
  let ?s1 = "s\<lparr>cards_uq := False, trace := trace s @ [DROP_INDEX]\<rparr>"
  have ins: "db_insert_cards (Some pid) (validKeys keys) ?s1 =
       (Inr (), ?s1\<lparr>cards := cards ?s1 @ new_rows pid (validKeys keys) (cards_seq ?s1),
                   cards_seq := cards_seq ?s1 + length (validKeys keys),
                   trace := trace ?s1 @ [INSERT_cards (Some pid) (validKeys keys)]\<rparr>)"
    by (rule db_insert_cards_ok) simp
  from False show ?thesis
    unfolding addCardsBatch_pg_def
    apply (subst then_do_checkAdmin_ok [OF assms])
    apply (simp only: length_0_conv if_False)
    apply (subst then_do_Inr [where m = "try_catch db_drop_index (\<lambda>_. return_a ())", OF drop_index_eq])
    apply (subst then_do_Inr [where m = "db_insert_cards (Some pid) (validKeys keys)", OF ins])
    apply (subst then_do_Inr [where m = "revalidate_cards (js ''/'' @ pid)", OF revalidate_cards_eq])
    apply (simp add: return_a_def)
    done
qed

lemma new_rows_all:
  "list_all (\<lambda>r. productId r = pid \<and> isUsed r = Some False \<and> reservedAt r = None)
     (new_rows pid keys n)"
  by (auto simp: list_all_iff dest: new_rows_fields)

lemma isAdmin_alice: "isAdmin alice"
  by (simp add: alice_def ctx_of_def isAdmin_def caller_handle_def adminUsers_def js_def
        asciiLower_def COMMA_def)

lemma not_isAdmin_mallory: "\<not> isAdmin mallory"
  by (simp add: mallory_def ctx_of_def isAdmin_def caller_handle_def adminUsers_def js_def
        asciiLower_def COMMA_def)

text \<open>
  Claim C1.  Called by an administrator, \<open>addCardsBatch\<close> (of either build) keeps of the
  keys, each one trimmed, those that are not empty.  When none is left it returns
  \<open>{ success: 0 }\<close> and the server is as before: no statement was sent.  Otherwise it
  returns the number of keys left, and the cards table has gained, after the rows it had,
  one row for each of these keys, in order, of the given product, unused and not
  reserved.  (A caller that is no administrator gets \<open>Unauthorized\<close>: claim C2.)
\<close>

theorem addCardsBatch_trims_drops_inserts:
  assumes "isAdmin c" and "writer = addCardsBatch \<or> writer = addCardsBatch_pg"
  shows "validKeys keys = filter (\<lambda>k. k \<noteq> []) (map trim keys)
     \<and> (if validKeys keys = [] then writer c pid keys s = (Inr \<lparr>success = 0\<rparr>, s)
        else fst (writer c pid keys s) = Inr \<lparr>success = length (validKeys keys)\<rparr>
           \<and> (let added = drop (length (cards s)) (cards (snd (writer c pid keys s)))
              in cards (snd (writer c pid keys s)) = cards s @ added
               \<and> map cardKey added = validKeys keys
               \<and> list_all (\<lambda>r. productId r = pid \<and> isUsed r = Some False
                                \<and> reservedAt r = None) added))"
  using assms
  by (auto simp: addCardsBatch_admin addCardsBatch_pg_admin validKeys_def truthy_def [abs_def]
        new_rows_all Let_def)

theorem addCardsBatch_trims_drops_inserts_witness:
  "isAdmin alice
   \<and> validKeys [js '' a '', js '''', js ''b'' @ [9], js ''   ''] = [js ''a'', js ''b'']
   \<and> fst (addCardsBatch alice (js ''p1'') [js '' a '', js '''', js ''b'' @ [9], js ''   ''] server0)
       = Inr \<lparr>success = 2\<rparr>
   \<and> map cardKey
         (cards (snd (addCardsBatch alice (js ''p1'')
                        [js '' a '', js '''', js ''b'' @ [9], js ''   ''] server0)))
       = [js ''a'', js ''b'']
   \<and> addCardsBatch alice (js ''p1'') [js '''', js ''   ''] server0 = (Inr \<lparr>success = 0\<rparr>, server0)"
proof -
  have v: "validKeys [js '' a '', js '''', js ''b'' @ [9], js ''   ''] = [js ''a'', js ''b'']"
    by (simp add: validKeys_def truthy_def trim_def isWhiteSpace_def js_def)
  have e: "validKeys [js '''', js ''   ''] = []"
    by (simp add: validKeys_def truthy_def trim_def isWhiteSpace_def js_def)
  have c: "cards server0 = []" by (simp add: server0_def)
  show ?thesis
    using addCardsBatch_trims_drops_inserts [OF isAdmin_alice, of addCardsBatch
        "[js '' a '', js '''', js ''b'' @ [9], js ''   '']" "js ''p1''" server0]
      addCardsBatch_trims_drops_inserts [OF isAdmin_alice, of addCardsBatch
        "[js '''', js ''   '']" "js ''p1''" server0]
    by (simp add: v e c isAdmin_alice Let_def)
qed

section \<open>Authorization\<close>

text \<open>
  Claim C2.  A caller that is not recognised as an administrator (no session, no user, no
  handle, an empty handle, or a handle whose lower-case form is not an entry of the
  lower-cased allow-list) gets \<open>Unauthorized\<close> from every exported action of both builds,
  and the server is exactly as before: no row has changed, no statement is in the trace
  and no path has been refreshed.
\<close>

theorem unauthorized_call_fails_before_storage:
  assumes "\<not> isAdmin c"
  shows "perform c a s = (Inl Unauthorized, s)
     \<and> (case perform_pg c a of None \<Rightarrow> True | Some m \<Rightarrow> m s = (Inl Unauthorized, s))"
  using assms
  by (auto simp: perform_unauthorized split: option.splits dest: perform_pg_unauthorized)

theorem unauthorized_call_fails_before_storage_witness:
  "\<not> isAdmin mallory
   \<and> perform mallory (AddCardsBatch (js ''p1'') [js ''key'']) server0 = (Inl Unauthorized, server0)
   \<and> perform mallory (DeleteCard 1) (server_with [unused_card 1 (js ''p1'') (js ''key'') None])
       = (Inl Unauthorized, server_with [unused_card 1 (js ''p1'') (js ''key'') None])
   \<and> perform mallory (DeleteAllCards (js ''p1''))
         (server_with [unused_card 1 (js ''p1'') (js ''key'') None])
       = (Inl Unauthorized, server_with [unused_card 1 (js ''p1'') (js ''key'') None])"
  using unauthorized_call_fails_before_storage [OF not_isAdmin_mallory, of "AddCardsBatch (js ''p1'') [js ''key'']" server0]
    unauthorized_call_fails_before_storage [OF not_isAdmin_mallory, of "DeleteCard 1"
      "server_with [unused_card 1 (js ''p1'') (js ''key'') None]"]
    unauthorized_call_fails_before_storage [OF not_isAdmin_mallory, of "DeleteAllCards (js ''p1'')"
      "server_with [unused_card 1 (js ''p1'') (js ''key'') None]"]
    not_isAdmin_mallory
  by simp

text \<open>
  Claim C10.  With \<open>ADMIN_USERS\<close> unset the allow-list is empty, \<open>checkAdmin\<close> throws
  \<open>Unauthorized\<close> for every caller, and so does every exported action of both builds,
  leaving the server as it was.
\<close>

theorem unset_allow_list_fails_closed:
  assumes "ADMIN_USERS c = None"
  shows "adminUsers c = []
     \<and> checkAdmin c s = (Inl Unauthorized, s)
     \<and> perform c a s = (Inl Unauthorized, s)
     \<and> (case perform_pg c a of None \<Rightarrow> True | Some m \<Rightarrow> m s = (Inl Unauthorized, s))"
proof -
  from assms have l: "adminUsers c = []" by (simp add: adminUsers_def)
  then have n: "\<not> isAdmin c" by (simp add: isAdmin_def split: option.splits)
  from l n show ?thesis
    by (auto simp: perform_unauthorized checkAdmin_isAdmin split: option.splits
          dest: perform_pg_unauthorized)
qed

theorem unset_allow_list_fails_closed_witness:
  "ADMIN_USERS (ctx_of None (Some (js ''alice''))) = None
   \<and> adminUsers (ctx_of None (Some (js ''alice''))) = []
   \<and> checkAdmin (ctx_of None (Some (js ''alice''))) server0 = (Inl Unauthorized, server0)
   \<and> perform (ctx_of None (Some (js ''alice''))) (AddCardsBatch (js ''p1'') [js ''key'']) server0
       = (Inl Unauthorized, server0)"
proof -
  have u: "ADMIN_USERS (ctx_of None (Some (js ''alice''))) = None"
    by (simp add: ctx_of_def)
  show ?thesis
    using unset_allow_list_fails_closed [OF u, of server0 "AddCardsBatch (js ''p1'') [js ''key'']"] u
    by simp
qed

section \<open>The size of an insert statement\<close>

lemma inserts_bounded_append:
  "inserts_bounded n (xs @ ys) \<longleftrightarrow> inserts_bounded n xs \<and> inserts_bounded n ys"
  by (simp add: inserts_bounded_def)

lemma inserts_bounded_Nil: "inserts_bounded n []"
  by (simp add: inserts_bounded_def)

lemma inserts_bounded_Cons:
  "inserts_bounded n (st # tr) \<longleftrightarrow> insert_size st \<le> n \<and> inserts_bounded n tr"
  by (simp add: inserts_bounded_def)

lemma inserts_bounded_chunk:
  "inserts_bounded n (map (INSERT_cards pid) (chunk n keys))"
  by (auto simp: inserts_bounded_def list_all_iff dest: chunk_sizes)

lemma addCardsBatch_trace:
  "trace (snd (addCardsBatch c pid keys s)) =
     trace s @
     (if isAdmin c \<and> validKeys keys \<noteq> []
      then DROP_INDEX # map (INSERT_cards (Some pid)) (chunk BATCH_SIZE_admin (validKeys keys))
      else [])"
proof (cases "isAdmin c")
  case True
  then show ?thesis by (simp add: addCardsBatch_admin)
next
  case False
  then show ?thesis by (simp add: addCardsBatch_def then_do_checkAdmin_fail)
qed

lemma addCardsBatch_pg_trace:
  "trace (snd (addCardsBatch_pg c pid keys s)) =
     trace s @
     (if isAdmin c \<and> validKeys keys \<noteq> []
      then [DROP_INDEX, INSERT_cards (Some pid) (validKeys keys)]
      else [])"
proof (cases "isAdmin c")
  case True
  then show ?thesis by (simp add: addCardsBatch_pg_admin)
next
  case False
  then show ?thesis by (simp add: addCardsBatch_pg_def then_do_checkAdmin_fail)
qed

lemma validKeys_eleven_keys: "validKeys eleven_keys = eleven_keys"
  by (simp add: validKeys_def eleven_keys_def truthy_def trim_def isWhiteSpace_def js_def)

text \<open>
  Claim C7, as stated, fails for the \<open>addCardsBatch\<close> of the PostgreSQL build: eleven keys
  go into one insert statement, more than the ten of the D1 build's \<open>BATCH_SIZE\<close>.
\<close>

theorem addCardsBatch_pg_insert_not_bounded:
  "\<not> inserts_bounded BATCH_SIZE_admin
       (trace (snd (addCardsBatch_pg alice (js ''p1'') eleven_keys server0)))"
  by (simp add: addCardsBatch_pg_trace isAdmin_alice validKeys_eleven_keys inserts_bounded_def
        BATCH_SIZE_admin_def)
     (simp add: eleven_keys_def)

text \<open>
  Claim C7, amended.  The \<open>addCardsBatch\<close> of the D1 build sends, after the
  \<open>DROP INDEX\<close>, the surviving keys in runs of \<open>BATCH_SIZE = 10\<close> (a constant of its own,
  not the 50 of the upload page), one insert statement for each run, so that none of its
  insert statements takes more than ten keys, however many keys the call is given.  The
  \<open>addCardsBatch\<close> of the PostgreSQL build sends all surviving keys in one insert
  statement.
\<close>

theorem addCardsBatch_inserts_bounded:
  "BATCH_SIZE_admin = 10 \<and> BATCH_SIZE = 50
   \<and> inserts_bounded BATCH_SIZE_admin
        (drop (length (trace s)) (trace (snd (addCardsBatch c pid keys s))))
   \<and> (isAdmin c \<and> validKeys keys \<noteq> [] \<longrightarrow>
        trace (snd (addCardsBatch c pid keys s)) =
          trace s @ DROP_INDEX #
            map (INSERT_cards (Some pid)) (chunk BATCH_SIZE_admin (validKeys keys))
        \<and> concat (chunk BATCH_SIZE_admin (validKeys keys)) = validKeys keys
        \<and> trace (snd (addCardsBatch_pg c pid keys s)) =
          trace s @ [DROP_INDEX, INSERT_cards (Some pid) (validKeys keys)])"
proof -
  have "inserts_bounded BATCH_SIZE_admin
        (drop (length (trace s)) (trace (snd (addCardsBatch c pid keys s))))"
    by (simp add: addCardsBatch_trace inserts_bounded_chunk inserts_bounded_Cons
          inserts_bounded_Nil)
  moreover have "concat (chunk BATCH_SIZE_admin (validKeys keys)) = validKeys keys"
    by (rule concat_chunk) (simp add: BATCH_SIZE_admin_def)
  ultimately show ?thesis
    by (simp add: addCardsBatch_trace addCardsBatch_pg_trace BATCH_SIZE_admin_def BATCH_SIZE_def)
qed

theorem addCardsBatch_inserts_bounded_witness:
  "isAdmin alice \<and> validKeys eleven_keys \<noteq> []
   \<and> trace (snd (addCardsBatch alice (js ''p1'') eleven_keys server0)) =
       [DROP_INDEX,
        INSERT_cards (Some (js ''p1'')) (take 10 eleven_keys),
        INSERT_cards (Some (js ''p1'')) [js ''k11'']]
   \<and> inserts_bounded BATCH_SIZE_admin
        (trace (snd (addCardsBatch alice (js ''p1'') eleven_keys server0)))
   \<and> trace (snd (addCardsBatch_pg alice (js ''p1'') eleven_keys server0)) =
       [DROP_INDEX, INSERT_cards (Some (js ''p1'')) eleven_keys]"
proof -
  have ne: "validKeys eleven_keys \<noteq> []"
    by (simp add: validKeys_eleven_keys) (simp add: eleven_keys_def)
  have t: "trace server0 = []" by (simp add: server0_def)
  have ch: "chunk 10 eleven_keys = [take 10 eleven_keys, [js ''k11'']]"
    by (simp add: chunk_step eleven_keys_def)
  show ?thesis
    using addCardsBatch_inserts_bounded [of server0 alice "js ''p1''" eleven_keys] ne
    by (simp add: isAdmin_alice t validKeys_eleven_keys ch BATCH_SIZE_admin_def
          inserts_bounded_def)
qed

section \<open>Deleting card keys\<close>

lemma deleteCard_admin:
  assumes "isAdmin c"
  shows "deleteCard c cardId s =
     (case find (\<lambda>r. card_id r = cardId) (cards s) of
        None \<Rightarrow> (Inl (Error ''Card not found''), logged (SELECT_card cardId) s)
      | Some crd \<Rightarrow>
          if isUsed crd = Some True
          then (Inl (Error ''Cannot delete used card''), logged (SELECT_card cardId) s)
          else if (\<exists>r. reservedAt crd = Some r \<and> r > Date_now c - 60000)
          then (Inl (Error ''Cannot delete reserved card''), logged (SELECT_card cardId) s)
          else (Inr (),
                s\<lparr>cards := filter (\<lambda>r. card_id r \<noteq> cardId) (cards s),
                  trace := trace s @ [SELECT_card cardId, DELETE_card cardId],
                  revalidated := revalidated s @
                    [js ''/admin'', js ''/admin/cards'', js ''/'']\<rparr>))"
  using assms
  by (simp add: deleteCard_def then_do_checkAdmin_ok)
     (simp add: then_do_def db_find_card_def db_delete_card_def throw_def logged_def
        revalidate_cards_eq split: option.splits)

lemma cards_logged [simp]: "cards (logged st s) = cards s"
  by (simp add: logged_def)

lemma filter_distinct_id:
  "distinct (map f xs) \<Longrightarrow> find (\<lambda>x. f x = a) xs = Some r
     \<Longrightarrow> filter (\<lambda>x. f x \<noteq> a) xs = remove1 r xs"
proof (induction xs)
  case Nil
  then show ?case by simp
next
  case (Cons x xs)
  show ?case
  proof (cases "f x = a")
    case True
    with Cons.prems have "r = x" by simp
    moreover from Cons.prems(1) have "f x \<notin> set (map f xs)" by simp
    with True have "\<forall>y\<in>set xs. f y \<noteq> a" by (metis imageI set_map)
    ultimately show ?thesis using True by simp
  next
    case False
    with Cons.prems have fnd: "find (\<lambda>x. f x = a) xs = Some r" by simp
    then have "f r = a" by (auto simp: find_Some_iff)
    with False have "r \<noteq> x" by auto
    with Cons.IH [OF _ fnd] Cons.prems(1) False show ?thesis by simp
  qed
qed

text \<open>
  Claim C3.  For an administrator, \<open>deleteCard\<close> throws \<open>Card not found\<close> when no row
  has the id; throws \<open>Cannot delete used card\<close> when the row's used flag is true; throws a
  conflict error when the row is reserved with \<open>reservedAt > now - 60 s\<close> (\<open>Cannot delete
  reserved card\<close>, unless the row is used as well, which is reported first); and in each
  of these cases leaves the rows as they are.  Otherwise it succeeds and the row with the
  id is gone, the other rows staying in place.
\<close>

theorem deleteCard_guards:
  assumes "isAdmin c"
  shows "(case find (\<lambda>r. card_id r = cardId) (cards s) of
        None \<Rightarrow>
          fst (deleteCard c cardId s) = Inl (Error ''Card not found'')
          \<and> cards (snd (deleteCard c cardId s)) = cards s
      | Some crd \<Rightarrow>
          (isUsed crd = Some True \<longrightarrow>
             fst (deleteCard c cardId s) = Inl (Error ''Cannot delete used card'')
             \<and> cards (snd (deleteCard c cardId s)) = cards s)
        \<and> ((\<exists>r. reservedAt crd = Some r \<and> r > Date_now c - 60 * 1000) \<longrightarrow>
             fst (deleteCard c cardId s) =
               Inl (Error (if isUsed crd = Some True then ''Cannot delete used card''
                           else ''Cannot delete reserved card''))
             \<and> cards (snd (deleteCard c cardId s)) = cards s)
        \<and> (isUsed crd \<noteq> Some True
             \<and> \<not> (\<exists>r. reservedAt crd = Some r \<and> r > Date_now c - 60 * 1000) \<longrightarrow>
             fst (deleteCard c cardId s) = Inr ()
             \<and> cards (snd (deleteCard c cardId s)) =
                 filter (\<lambda>r. card_id r \<noteq> cardId) (cards s)
             \<and> (distinct (map card_id (cards s)) \<longrightarrow>
                  cards (snd (deleteCard c cardId s)) = remove1 crd (cards s))))"
proof (cases "find (\<lambda>r. card_id r = cardId) (cards s)")
  case None
  then show ?thesis by (simp add: deleteCard_admin [OF assms])
next
  case (Some crd)
  then show ?thesis
    by (auto simp: deleteCard_admin [OF assms] filter_distinct_id)
qed

theorem deleteCard_guards_witness:
  "isAdmin alice \<and> Date_now alice = 1700000000000
   \<and> fst (deleteCard alice 1
        (server_with [unused_card 1 (js ''p1'') (js ''key'') (Some (1700000000000 - 30000))]))
       = Inl (Error ''Cannot delete reserved card'')
   \<and> cards (snd (deleteCard alice 1
        (server_with [unused_card 1 (js ''p1'') (js ''key'') (Some (1700000000000 - 30000))])))
       = [unused_card 1 (js ''p1'') (js ''key'') (Some (1700000000000 - 30000))]
   \<and> fst (deleteCard alice 1
        (server_with [unused_card 1 (js ''p1'') (js ''key'') (Some (1700000000000 - 90000))]))
       = Inr ()
   \<and> cards (snd (deleteCard alice 1
        (server_with [unused_card 1 (js ''p1'') (js ''key'') (Some (1700000000000 - 90000))])))
       = []
   \<and> fst (deleteCard alice 1 (server_with [used_card 1 (js ''p1'') (js ''key'')]))
       = Inl (Error ''Cannot delete used card'')
   \<and> cards (snd (deleteCard alice 1 (server_with [used_card 1 (js ''p1'') (js ''key'')])))
       = [used_card 1 (js ''p1'') (js ''key'')]
   \<and> fst (deleteCard alice 2 (server_with [used_card 1 (js ''p1'') (js ''key'')]))
       = Inl (Error ''Card not found'')"
proof -
  have n: "Date_now alice = 1700000000000" by (simp add: alice_def ctx_of_def)
  show ?thesis
    using
      deleteCard_guards [OF isAdmin_alice, of 1
        "server_with [unused_card 1 (js ''p1'') (js ''key'') (Some (1700000000000 - 30000))]"]
      deleteCard_guards [OF isAdmin_alice, of 1
        "server_with [unused_card 1 (js ''p1'') (js ''key'') (Some (1700000000000 - 90000))]"]
      deleteCard_guards [OF isAdmin_alice, of 1
        "server_with [used_card 1 (js ''p1'') (js ''key'')]"]
      deleteCard_guards [OF isAdmin_alice, of 2
        "server_with [used_card 1 (js ''p1'') (js ''key'')]"]
    by (simp add: n isAdmin_alice server_with_def server0_def unused_card_def used_card_def)
qed

lemma delete_where_safely_deletable: "delete_where pid t c = safely_deletable pid t c"
  by (cases "isUsed c"; cases "reservedAt c")
     (auto simp: delete_where_def safely_deletable_def)

lemma deleteAllCards_admin:
  assumes "isAdmin c"
  shows "deleteAllCards c pid s =
     (Inr \<lparr>deleted = length (filter (delete_where pid (unixepoch c * 1000 - 60000)) (cards s))\<rparr>,
      s\<lparr>cards := filter (\<lambda>r. \<not> delete_where pid (unixepoch c * 1000 - 60000) r) (cards s),
        trace := trace s @ [DELETE_cards_where pid (unixepoch c * 1000 - 60000)],
        revalidated := revalidated s @
          [js ''/admin'', js ''/admin/cards'' @ js ''/'' @ pid, js ''/'']\<rparr>)"
  using assms
  by (simp add: deleteAllCards_def then_do_checkAdmin_ok)
     (simp add: then_do_def db_delete_cards_where_def logged_def revalidate_cards_eq
        return_a_def)

text \<open>
  Claim C4.  For an administrator, \<open>deleteAllCards\<close> sends one statement, a filtered
  delete, which removes exactly the rows of the product whose used flag is false or absent
  and that have no reservation or one older than 60 seconds by the database clock
  (\<open>reservedAt < unixepoch() * 1000 - 60000\<close>); every other row stays, in place, and the
  result counts the rows removed.
\<close>

theorem deleteAllCards_removes_safely_deletable:
  assumes "isAdmin c"
  shows "fst (deleteAllCards c pid s) =
       Inr \<lparr>deleted =
         length (filter (safely_deletable pid (unixepoch c * 1000 - 60 * 1000)) (cards s))\<rparr>
     \<and> cards (snd (deleteAllCards c pid s)) =
         filter (\<lambda>r. \<not> safely_deletable pid (unixepoch c * 1000 - 60 * 1000) r) (cards s)
     \<and> trace (snd (deleteAllCards c pid s)) =
         trace s @ [DELETE_cards_where pid (unixepoch c * 1000 - 60 * 1000)]
     \<and> length (cards s) =
         length (cards (snd (deleteAllCards c pid s)))
         + length (filter (safely_deletable pid (unixepoch c * 1000 - 60 * 1000)) (cards s))"
proof -
  have "length (cards s) =
      length (filter (\<lambda>r. \<not> safely_deletable pid (unixepoch c * 1000 - 60000) r) (cards s))
      + length (filter (safely_deletable pid (unixepoch c * 1000 - 60000)) (cards s))"
    using sum_length_filter_compl [of "safely_deletable pid (unixepoch c * 1000 - 60000)" "cards s"]
    by simp
  then show ?thesis
    by (simp add: deleteAllCards_admin [OF assms] delete_where_safely_deletable [abs_def])
qed

theorem deleteAllCards_removes_safely_deletable_witness:
  "isAdmin alice
   \<and> fst (deleteAllCards alice (js ''p1'') (server_with five_cards)) = Inr \<lparr>deleted = 3\<rparr>
   \<and> cards (snd (deleteAllCards alice (js ''p1'') (server_with five_cards)))
       = [used_card 2 (js ''p1'') (js ''k2''), used_card 4 (js ''p1'') (js ''k4'')]"
proof -
  have c: "cards (server_with five_cards) = five_cards"
    by (simp add: server_with_def)
  have f: "filter (safely_deletable (js ''p1'') t) five_cards =
      [unused_card 1 (js ''p1'') (js ''k1'') None, unused_card 3 (js ''p1'') (js ''k3'') None,
       unused_card 5 (js ''p1'') (js ''k5'') None]" for t
    by (simp add: five_cards_def safely_deletable_def unused_card_def used_card_def)
  have g: "filter (\<lambda>r. \<not> safely_deletable (js ''p1'') t r) five_cards =
      [used_card 2 (js ''p1'') (js ''k2''), used_card 4 (js ''p1'') (js ''k4'')]" for t
    by (auto simp: five_cards_def safely_deletable_def unused_card_def used_card_def)
  show ?thesis
    using deleteAllCards_removes_safely_deletable [OF isAdmin_alice, of "js ''p1''"
        "server_with five_cards"]
    by (simp add: isAdmin_alice c f g)
qed

section \<open>The upload\<close>

lemma uploadLoop_done:
  "\<not> (0 < bs \<and> i < length ks) \<Longrightarrow> uploadLoop bs w ks i n (cl, s) = (Inr n, cl, s)"
  by (subst uploadLoop.simps) auto

lemma uploadLoop_step:
  "0 < bs \<Longrightarrow> i < length ks \<Longrightarrow> w (slice i (i + bs) ks) s = (Inr r, s') \<Longrightarrow>
   uploadLoop bs w ks i n (cl, s) =
     uploadLoop bs w ks (i + bs) (n + success r)
       (cl\<lparr>processedCount := min (i + bs) (length ks),
           progress := Math_round (of_nat (i + bs) / of_nat (length ks) * 100),
           sent := sent cl @ [slice i (i + bs) ks],
           shown := shown cl @
             [(min (i + bs) (length ks),
               Math_round (of_nat (i + bs) / of_nat (length ks) * 100))]\<rparr>, s')"
  by (subst uploadLoop.simps) simp

lemma uploadLoop_abort:
  "0 < bs \<Longrightarrow> i < length ks \<Longrightarrow> w (slice i (i + bs) ks) s = (Inl e, s') \<Longrightarrow>
   uploadLoop bs w ks i n (cl, s) = (Inl e, cl\<lparr>sent := sent cl @ [slice i (i + bs) ks]\<rparr>, s')"
  by (subst uploadLoop.simps) simp

lemma chunk_drop_step:
  assumes "0 < bs" "i < length ks"
  shows "chunk bs (drop i ks) = slice i (i + bs) ks # chunk bs (drop (i + bs) ks)"
proof -
  have "drop i ks \<noteq> []" using assms by simp
  then have "chunk bs (drop i ks) = take bs (drop i ks) # chunk bs (drop bs (drop i ks))"
    using assms(1) by (rule chunk_step [rotated])
  moreover have "drop bs (drop i ks) = drop (i + bs) ks" by (metis drop_drop add.commute)
  ultimately show ?thesis by (simp add: slice_def)
qed

text \<open>
  A run whose batches are all accepted: the sum of the counts, the batches handed over,
  the pairs shown, and the server after the last batch.
\<close>

lemma uploadLoop_ok:
  assumes bs: "0 < bs" and ok: "\<And>b s. fst (w b s) = Inr \<lparr>success = cnt b\<rparr>"
  shows "\<exists>cl'. uploadLoop bs w ks i n (cl, s) =
        (Inr (n + sum_list (map cnt (chunk bs (drop i ks)))), cl',
         foldl (\<lambda>s b. snd (w b s)) s (chunk bs (drop i ks)))
      \<and> sent cl' = sent cl @ chunk bs (drop i ks)
      \<and> shown cl' = shown cl @
          map (\<lambda>j. (min (j + bs) (length ks),
                     Math_round (of_nat (j + bs) / of_nat (length ks) * 100)))
            (batch_offsets bs (length ks) i)
      \<and> toasts cl' = toasts cl \<and> refreshed cl' = refreshed cl
      \<and> uploading cl' = uploading cl \<and> totalCount cl' = totalCount cl"
proof (induction "length ks - i" arbitrary: i n cl s rule: less_induct)
  case less
  show ?case
  proof (cases "i < length ks")
    case False
    then show ?thesis
      by (simp add: uploadLoop_done batch_offsets.simps)
  next
    case True
    let ?b = "slice i (i + bs) ks"
    let ?cl1 = "cl\<lparr>processedCount := min (i + bs) (length ks),
           progress := Math_round (of_nat (i + bs) / of_nat (length ks) * 100),
           sent := sent cl @ [?b],
           shown := shown cl @
             [(min (i + bs) (length ks),
               Math_round (of_nat (i + bs) / of_nat (length ks) * 100))]\<rparr>"
    have w: "w ?b s = (Inr \<lparr>success = cnt ?b\<rparr>, snd (w ?b s))"
      using ok [of ?b s] by (cases "w ?b s") simp
    have step: "uploadLoop bs w ks i n (cl, s) =
        uploadLoop bs w ks (i + bs) (n + cnt ?b) (?cl1, snd (w ?b s))"
      using uploadLoop_step [where w = w and s = s, OF bs True w, of n cl] by simp
    have "length ks - (i + bs) < length ks - i" using bs True by simp
    from less [OF this, of "n + cnt ?b" ?cl1 "snd (w ?b s)"]
    obtain cl' where IH:
      "uploadLoop bs w ks (i + bs) (n + cnt ?b) (?cl1, snd (w ?b s)) =
        (Inr (n + cnt ?b + sum_list (map cnt (chunk bs (drop (i + bs) ks)))), cl',
         foldl (\<lambda>s b. snd (w b s)) (snd (w ?b s)) (chunk bs (drop (i + bs) ks)))"
      "sent cl' = sent ?cl1 @ chunk bs (drop (i + bs) ks)"
      "shown cl' = shown ?cl1 @
          map (\<lambda>j. (min (j + bs) (length ks),
                     Math_round (of_nat (j + bs) / of_nat (length ks) * 100)))
            (batch_offsets bs (length ks) (i + bs))"
      "toasts cl' = toasts ?cl1" "refreshed cl' = refreshed ?cl1"
      "uploading cl' = uploading ?cl1" "totalCount cl' = totalCount ?cl1"
      by blast
    have ch: "chunk bs (drop i ks) = ?b # chunk bs (drop (i + bs) ks)"
      using bs True by (rule chunk_drop_step)
    have off: "batch_offsets bs (length ks) i = i # batch_offsets bs (length ks) (i + bs)"
      using bs True by (subst batch_offsets.simps) simp
    show ?thesis
    proof (rule exI [of _ cl'], intro conjI)
      show "uploadLoop bs w ks i n (cl, s) =
        (Inr (n + sum_list (map cnt (chunk bs (drop i ks)))), cl',
         foldl (\<lambda>s b. snd (w b s)) s (chunk bs (drop i ks)))"
        unfolding ch step IH(1) by (simp add: add.assoc)
      show "sent cl' = sent cl @ chunk bs (drop i ks)"
        unfolding ch IH(2) by simp
      show "shown cl' = shown cl @
          map (\<lambda>j. (min (j + bs) (length ks),
                     Math_round (of_nat (j + bs) / of_nat (length ks) * 100)))
            (batch_offsets bs (length ks) i)"
        unfolding off IH(3) by simp
      show "toasts cl' = toasts cl" unfolding IH(4) by simp
      show "refreshed cl' = refreshed cl" unfolding IH(5) by simp
      show "uploading cl' = uploading cl" unfolding IH(6) by simp
      show "totalCount cl' = totalCount cl" unfolding IH(7) by simp
    qed
  qed
qed

lemma addCardsBatch_count:
  "isAdmin c \<Longrightarrow> fst (addCardsBatch c pid b s) = Inr \<lparr>success = length (validKeys b)\<rparr>"
  by (simp add: addCardsBatch_admin)

lemma addCardsBatch_pg_count:
  "isAdmin c \<Longrightarrow> fst (addCardsBatch_pg c pid b s) = Inr \<lparr>success = length (validKeys b)\<rparr>"
  by (simp add: addCardsBatch_pg_admin)

lemma cards_of_new_rows:
  "filter (\<lambda>r. productId r = pid) (new_rows pid keys n) = new_rows pid keys n"
  by (auto simp: filter_id_conv dest: new_rows_fields)

lemma addCardsBatch_keys:
  "isAdmin c \<Longrightarrow>
   map cardKey (cards_of pid (snd (addCardsBatch c pid b s))) =
     map cardKey (cards_of pid s) @ validKeys b"
  by (simp add: addCardsBatch_admin cards_of_def cards_of_new_rows)

lemma addCardsBatch_pg_keys:
  "isAdmin c \<Longrightarrow>
   map cardKey (cards_of pid (snd (addCardsBatch_pg c pid b s))) =
     map cardKey (cards_of pid s) @ validKeys b"
  by (simp add: addCardsBatch_pg_admin cards_of_def cards_of_new_rows)

lemma foldl_keys:
  assumes "\<And>b s. map cardKey (cards_of pid (snd (w b s))) =
             map cardKey (cards_of pid s) @ validKeys b"
  shows "map cardKey (cards_of pid (foldl (\<lambda>s b. snd (w b s)) s bs)) =
     map cardKey (cards_of pid s) @ concat (map validKeys bs)"
  by (induction bs arbitrary: s) (simp_all add: assms)

lemma validKeys_concat: "concat (map validKeys xss) = validKeys (concat xss)"
  by (induction xss) (simp_all add: validKeys_def)

lemma validKeys_trimmed:
  "\<forall>k\<in>set ks. k \<noteq> [] \<and> trim k = k \<Longrightarrow> validKeys ks = ks"
  by (induction ks) (simp_all add: validKeys_def truthy_def)

lemma validKeys_cardList_of: "validKeys (cardList_of text) = cardList_of text"
  by (rule validKeys_trimmed) (simp add: cardList_of_trimmed)

lemma upload_writer_cases:
  assumes "isAdmin c" and "w = addCardsBatch c pid \<or> w = addCardsBatch_pg c pid"
  shows "fst (w b s) = Inr \<lparr>success = length (validKeys b)\<rparr>"
    and "map cardKey (cards_of pid (snd (w b s))) = map cardKey (cards_of pid s) @ validKeys b"
  using assms
  by (auto simp: addCardsBatch_count addCardsBatch_pg_count addCardsBatch_keys
        addCardsBatch_pg_keys)

lemma chunk_not_Nil: "0 < n \<Longrightarrow> xs \<noteq> [] \<Longrightarrow> chunk n xs \<noteq> []"
  by (simp add: chunk_step)

text \<open>
  Claim C5.  For a batch size \<open>bs > 0\<close> and a list of keys that is not empty, the batches
  the upload hands to \<open>addCardsBatch\<close> (an administrator calling) are \<open>chunk bs ks\<close>:
  concatenated in order they give the list back, every batch but the last has exactly
  \<open>bs\<close> keys, and the last has between one and \<open>bs\<close>.  The page runs the loop with
  \<open>bs = BATCH_SIZE = 50\<close>.
\<close>

theorem upload_batches_partition:
  assumes "isAdmin c" and "w = addCardsBatch c pid \<or> w = addCardsBatch_pg c pid"
    and "0 < bs" and "ks \<noteq> []"
  shows "sent (fst (snd (uploadLoop bs w ks 0 0 (cl, s)))) = sent cl @ chunk bs ks
     \<and> concat (chunk bs ks) = ks
     \<and> chunk bs ks \<noteq> []
     \<and> (\<forall>b\<in>set (butlast (chunk bs ks)). length b = bs)
     \<and> 0 < length (last (chunk bs ks)) \<and> length (last (chunk bs ks)) \<le> bs"
proof -
  obtain cl' where "uploadLoop bs w ks 0 0 (cl, s) =
        (Inr (0 + sum_list (map (\<lambda>b. length (validKeys b)) (chunk bs (drop 0 ks)))), cl',
         foldl (\<lambda>s b. snd (w b s)) s (chunk bs (drop 0 ks)))"
      and "sent cl' = sent cl @ chunk bs (drop 0 ks)"
    using uploadLoop_ok [where w = w and cnt = "\<lambda>b. length (validKeys b)" and bs = bs
        and ks = ks and i = 0 and n = 0 and cl = cl and s = s,
        OF assms(3) upload_writer_cases(1) [OF assms(1,2)]]
    by blast
  then have "sent (fst (snd (uploadLoop bs w ks 0 0 (cl, s)))) = sent cl @ chunk bs ks"
    by simp
  moreover have "chunk bs ks \<noteq> []" using assms(3,4) by (rule chunk_not_Nil)
  moreover from this have "last (chunk bs ks) \<in> set (chunk bs ks)" by simp
  then have "0 < length (last (chunk bs ks)) \<and> length (last (chunk bs ks)) \<le> bs"
    by (rule chunk_sizes)
  ultimately show ?thesis
    using assms(3) by (simp add: concat_chunk chunk_full)
qed

theorem upload_batches_partition_witness:
  "isAdmin alice \<and> (0::nat) < 2 \<and> [js ''a'', js ''b'', js ''c''] \<noteq> []
   \<and> sent (fst (snd (uploadLoop 2 (addCardsBatch alice (js ''p1''))
                      [js ''a'', js ''b'', js ''c''] 0 0 (client0, server0))))
       = [[js ''a'', js ''b''], [js ''c'']]"
proof -
  have ch: "chunk 2 [js ''a'', js ''b'', js ''c''] = [[js ''a'', js ''b''], [js ''c'']]"
    by (simp add: chunk_step)
  have s0: "sent client0 = []" by (simp add: client0_def)
  show ?thesis
    using upload_batches_partition [OF isAdmin_alice, of "addCardsBatch alice (js ''p1'')"
        "js ''p1''" 2 "[js ''a'', js ''b'', js ''c'']" client0 server0]
    by (simp add: isAdmin_alice ch s0)
qed

section \<open>Progress of the upload\<close>

lemma Math_round_percent:
  assumes "0 < b"
  shows "Math_round (of_nat a / of_nat b * 100) = int ((200 * a + b) div (2 * b))"
proof -
  have "of_nat a / of_nat b * 100 + 1 / 2 = (of_nat (200 * a + b) :: rat) / of_nat (2 * b)"
    using assms by (simp add: field_simps)
  then show ?thesis
    unfolding Math_round_def by (simp only: floor_divide_of_nat_eq)
qed

text \<open>
  What \<open>handleFileUpload\<close> does with a file that has keys, every batch being accepted: the
  batches it hands over, the pairs (\<open>processedCount\<close>, \<open>progress\<close>) it sets, the toast with
  the sum of the counts, and the server after the last batch.  The first component of a
  pair is \<open>min (i + BATCH_SIZE) total\<close>; the second is computed from \<open>i + BATCH_SIZE\<close>
  itself.
\<close>

lemma handleFileUpload_ok:
  assumes ok: "\<And>b s. fst (w b s) = Inr \<lparr>success = cnt b\<rparr>"
    and ne: "cardList_of text \<noteq> []"
  shows "snd (handleFileUpload w (Some text) (cl, s)) =
       foldl (\<lambda>s b. snd (w b s)) s (chunk BATCH_SIZE (cardList_of text))"
    and "sent (fst (handleFileUpload w (Some text) (cl, s))) =
       sent cl @ chunk BATCH_SIZE (cardList_of text)"
    and "shown (fst (handleFileUpload w (Some text) (cl, s))) =
       shown cl @
       map (\<lambda>i. (min (i + BATCH_SIZE) (length (cardList_of text)),
                  Math_round (of_nat (i + BATCH_SIZE) / of_nat (length (cardList_of text)) * 100)))
         (batch_offsets BATCH_SIZE (length (cardList_of text)) 0)"
    and "toasts (fst (handleFileUpload w (Some text) (cl, s))) =
       toasts cl @
       [ToastUploadSuccess (sum_list (map cnt (chunk BATCH_SIZE (cardList_of text))))]"
    and "progress (fst (handleFileUpload w (Some text) (cl, s))) = 0"
    and "\<not> uploading (fst (handleFileUpload w (Some text) (cl, s)))"
proof -
  let ?cl0 = "cl\<lparr>uploading := True, progress := 0, processedCount := 0, totalCount := 0,
                 totalCount := length (cardList_of text)\<rparr>"
  have bs: "0 < BATCH_SIZE" by (simp add: BATCH_SIZE_def)
  obtain cl' where run: "uploadLoop BATCH_SIZE w (cardList_of text) 0 0 (?cl0, s) =
        (Inr (0 + sum_list (map cnt (chunk BATCH_SIZE (drop 0 (cardList_of text))))), cl',
         foldl (\<lambda>s b. snd (w b s)) s (chunk BATCH_SIZE (drop 0 (cardList_of text))))"
      and cl': "sent cl' = sent ?cl0 @ chunk BATCH_SIZE (drop 0 (cardList_of text))"
        "shown cl' = shown ?cl0 @
          map (\<lambda>j. (min (j + BATCH_SIZE) (length (cardList_of text)),
                     Math_round (of_nat (j + BATCH_SIZE) / of_nat (length (cardList_of text)) * 100)))
            (batch_offsets BATCH_SIZE (length (cardList_of text)) 0)"
        "toasts cl' = toasts ?cl0"
    using uploadLoop_ok [where w = w and cnt = cnt and bs = BATCH_SIZE
        and ks = "cardList_of text" and i = 0 and n = 0 and cl = ?cl0 and s = s, OF bs ok]
    by blast
  have h: "handleFileUpload w (Some text) (cl, s) =
      (finally_block (cl'\<lparr>toasts := toasts cl' @
           [ToastUploadSuccess (sum_list (map cnt (chunk BATCH_SIZE (cardList_of text))))],
         refreshed := Suc (refreshed cl')\<rparr>),
       foldl (\<lambda>s b. snd (w b s)) s (chunk BATCH_SIZE (cardList_of text)))"
    using ne run by (simp add: handleFileUpload_def Let_def)
  show "snd (handleFileUpload w (Some text) (cl, s)) =
       foldl (\<lambda>s b. snd (w b s)) s (chunk BATCH_SIZE (cardList_of text))"
    by (simp add: h)
  show "sent (fst (handleFileUpload w (Some text) (cl, s))) =
       sent cl @ chunk BATCH_SIZE (cardList_of text)"
    using cl'(1) by (simp add: h finally_block_def)
  show "shown (fst (handleFileUpload w (Some text) (cl, s))) =
       shown cl @
       map (\<lambda>i. (min (i + BATCH_SIZE) (length (cardList_of text)),
                  Math_round (of_nat (i + BATCH_SIZE) / of_nat (length (cardList_of text)) * 100)))
         (batch_offsets BATCH_SIZE (length (cardList_of text)) 0)"
    using cl'(2) by (simp add: h finally_block_def)
  show "toasts (fst (handleFileUpload w (Some text) (cl, s))) =
       toasts cl @
       [ToastUploadSuccess (sum_list (map cnt (chunk BATCH_SIZE (cardList_of text))))]"
    using cl'(3) by (simp add: h finally_block_def)
  show "progress (fst (handleFileUpload w (Some text) (cl, s))) = 0"
    by (simp add: h finally_block_def)
  show "\<not> uploading (fst (handleFileUpload w (Some text) (cl, s)))"
    by (simp add: h finally_block_def)
qed

lemma cardList_of_k: "cardList_of (js ''k'') = [js ''k'']"
  by (simp add: cardList_of_def js_def LF_def truthy_def trim_def isWhiteSpace_def)

text \<open>
  Claim C6 at a file with the one key \<open>k\<close>: after the only batch (offset 0) the page sets
  \<open>processedCount = min (0 + 50) 1 = 1\<close>, as claimed, and
  \<open>progress = Math.round((0 + 50) / 1 * 100) = 5000\<close>, where the claim has
  \<open>round (1 / 1 * 100) = 100\<close> and no value above 100.
\<close>

theorem upload_progress_exceeds_100:
  "shown (fst (handleFileUpload (addCardsBatch alice (js ''p1'')) (Some (js ''k''))
                 (client0, server0))) = [(1, 5000)]"
proof -
  have ne: "cardList_of (js ''k'') \<noteq> []" by (simp add: cardList_of_k)
  have off: "batch_offsets 50 (Suc 0) 0 = [0]"
    by (simp add: batch_offsets.simps)
  have r: "Math_round 5000 = 5000"
    using Math_round_percent [of 1 50] by simp
  have "shown (fst (handleFileUpload (addCardsBatch alice (js ''p1'')) (Some (js ''k''))
                 (client0, server0))) =
       shown client0 @
       map (\<lambda>i. (min (i + BATCH_SIZE) (length (cardList_of (js ''k''))),
                  Math_round (of_nat (i + BATCH_SIZE) / of_nat (length (cardList_of (js ''k''))) * 100)))
         (batch_offsets BATCH_SIZE (length (cardList_of (js ''k''))) 0)"
    by (rule handleFileUpload_ok(3) [where cnt = "\<lambda>b. length (validKeys b)"])
       (simp_all add: addCardsBatch_count isAdmin_alice ne)
  also have "\<dots> = [(1, 5000)]"
    unfolding cardList_of_k BATCH_SIZE_def by (simp add: off r client0_def)
  finally show ?thesis .
qed

section \<open>Uploading a file twice\<close>

lemma upload_keys:
  assumes "isAdmin c" and "w = addCardsBatch c pid \<or> w = addCardsBatch_pg c pid"
    and "cardList_of text \<noteq> []"
  shows "map cardKey (cards_of pid (snd (handleFileUpload w (Some text) (cl, s)))) =
     map cardKey (cards_of pid s) @ cardList_of text"
proof -
  have bs: "0 < BATCH_SIZE" by (simp add: BATCH_SIZE_def)
  have "snd (handleFileUpload w (Some text) (cl, s)) =
       foldl (\<lambda>s b. snd (w b s)) s (chunk BATCH_SIZE (cardList_of text))"
    by (rule handleFileUpload_ok(1) [where cnt = "\<lambda>b. length (validKeys b)"])
       (simp_all add: upload_writer_cases(1) [OF assms(1,2)] assms(3))
  then have "map cardKey (cards_of pid (snd (handleFileUpload w (Some text) (cl, s)))) =
     map cardKey (cards_of pid s) @ concat (map validKeys (chunk BATCH_SIZE (cardList_of text)))"
    by (simp add: foldl_keys [where w = w, OF upload_writer_cases(2) [OF assms(1,2)]])
  then show ?thesis
    by (simp add: validKeys_concat concat_chunk [OF bs] validKeys_cardList_of)
qed

text \<open>
  Claim C9.  An administrator uploads a file with \<open>N > 0\<close> normalized keys twice, to a
  product that has no rows: afterwards the product has \<open>2 * N\<close> rows, whose keys are the
  normalized keys followed by the same keys again; nothing is recognised as a duplicate,
  neither within the file nor against the rows of the first upload.
\<close>

theorem upload_twice_doubles:
  assumes "isAdmin c" and "w = addCardsBatch c pid \<or> w = addCardsBatch_pg c pid"
    and "cardList_of text \<noteq> []" and "cards_of pid s = []"
  shows "map cardKey (cards_of pid
            (snd (handleFileUpload w (Some text) (handleFileUpload w (Some text) (cl, s)))))
          = cardList_of text @ cardList_of text
     \<and> length (cards_of pid
            (snd (handleFileUpload w (Some text) (handleFileUpload w (Some text) (cl, s)))))
          = 2 * length (cardList_of text)"
proof -
  obtain cl1 s1 where st1: "handleFileUpload w (Some text) (cl, s) = (cl1, s1)"
    by (cases "handleFileUpload w (Some text) (cl, s)")
  have k1: "map cardKey (cards_of pid s1) = cardList_of text"
    using upload_keys [OF assms(1-3), of cl s] assms(4) by (simp add: st1)
  have k2: "map cardKey (cards_of pid (snd (handleFileUpload w (Some text) (cl1, s1)))) =
      cardList_of text @ cardList_of text"
    using upload_keys [OF assms(1-3), of cl1 s1] by (simp add: k1)
  have "length (cards_of pid (snd (handleFileUpload w (Some text) (cl1, s1)))) =
      length (map cardKey (cards_of pid (snd (handleFileUpload w (Some text) (cl1, s1)))))"
    by simp
  also have "\<dots> = length (cardList_of text @ cardList_of text)"
    by (simp only: k2)
  finally have "length (cards_of pid (snd (handleFileUpload w (Some text) (cl1, s1)))) =
      2 * length (cardList_of text)"
    by simp
  with k2 show ?thesis by (simp add: st1)
qed

theorem upload_twice_doubles_witness:
  "isAdmin alice
   \<and> cardList_of example_file = [js ''k1'', js ''k1'', js ''k2,x'']
   \<and> cards_of (js ''p1'') server0 = []
   \<and> map cardKey (cards_of (js ''p1'')
        (snd (handleFileUpload (addCardsBatch alice (js ''p1'')) (Some example_file)
                (handleFileUpload (addCardsBatch alice (js ''p1'')) (Some example_file)
                   (client0, server0)))))
       = [js ''k1'', js ''k1'', js ''k2,x'', js ''k1'', js ''k1'', js ''k2,x'']
   \<and> length (cards_of (js ''p1'')
        (snd (handleFileUpload (addCardsBatch alice (js ''p1'')) (Some example_file)
                (handleFileUpload (addCardsBatch alice (js ''p1'')) (Some example_file)
                   (client0, server0)))))
       = 6"
proof -
  have n: "cardList_of example_file = [js ''k1'', js ''k1'', js ''k2,x'']"
    by (simp add: example_file_def cardList_of_def js_def LF_def truthy_def trim_def
          isWhiteSpace_def)
  have e: "cards_of (js ''p1'') server0 = []"
    by (simp add: cards_of_def server0_def)
  have ne: "cardList_of example_file \<noteq> []"
    unfolding n by simp
  show ?thesis
    using upload_twice_doubles [where w = "addCardsBatch alice (js ''p1'')" and cl = client0,
        OF isAdmin_alice _ ne e]
    by (simp add: isAdmin_alice n e)
qed

end
